theory Spec2Isabelle
  imports Main "HOL-Library.Word" "HOL-Library.Sublist"
begin

section \<open>JavaScript strings\<close>

text \<open>
  A JavaScript string is a sequence of UTF-16 code units; \<^verbatim>\<open>length\<close>, \<^verbatim>\<open>substring\<close>,
  \<^verbatim>\<open>includes\<close> and the regular expressions of the sources (none has the \<^verbatim>\<open>u\<close> flag) all
  work on code units. A string is therefore a list of 16-bit words. \<open>ascii\<close> writes an
  ASCII literal.
\<close>

type_synonym jsstring = "16 word list"

definition ascii :: "string \<Rightarrow> jsstring" where
  "ascii s = map (\<lambda>c. of_nat (of_char c)) s"

text \<open>
  The code units that \<^verbatim>\<open>\s\<close> matches and that \<^verbatim>\<open>String.prototype.trim\<close> strips: the
  WhiteSpace and LineTerminator productions of ECMAScript.
\<close>

definition is_ws :: "16 word \<Rightarrow> bool" where
  "is_ws c \<longleftrightarrow>
     c = 0x9 \<or> c = 0xA \<or> c = 0xB \<or> c = 0xC \<or> c = 0xD \<or> c = 0x20 \<or> c = 0xA0 \<or>
     c = 0x1680 \<or> (0x2000 \<le> c \<and> c \<le> 0x200A) \<or> c = 0x2028 \<or> c = 0x2029 \<or>
     c = 0x202F \<or> c = 0x205F \<or> c = 0x3000 \<or> c = 0xFEFF"

text \<open>The code units that \<^verbatim>\<open>.\<close> does not match (no \<^verbatim>\<open>s\<close> flag in the sources).\<close>

definition is_line_terminator :: "16 word \<Rightarrow> bool" where
  "is_line_terminator c \<longleftrightarrow> c = 0xA \<or> c = 0xD \<or> c = 0x2028 \<or> c = 0x2029"

definition not_line_terminator :: "16 word \<Rightarrow> bool" where
  "not_line_terminator c \<longleftrightarrow> \<not> is_line_terminator c"

text \<open>\<^verbatim>\<open>[a-zA-Z0-9]\<close>, and the word characters of \<^verbatim>\<open>\b\<close> (\<^verbatim>\<open>[A-Za-z0-9_]\<close>).\<close>

definition is_alnum :: "16 word \<Rightarrow> bool" where
  "is_alnum c \<longleftrightarrow>
     (0x61 \<le> c \<and> c \<le> 0x7A) \<or> (0x41 \<le> c \<and> c \<le> 0x5A) \<or> (0x30 \<le> c \<and> c \<le> 0x39)"

definition is_word_char :: "16 word \<Rightarrow> bool" where
  "is_word_char c \<longleftrightarrow> is_alnum c \<or> c = 0x5F"

text \<open>\<^verbatim>\<open>s.trim()\<close>\<close>

definition trim :: "jsstring \<Rightarrow> jsstring" where
  "trim s = rev (dropWhile is_ws (rev (dropWhile is_ws s)))"

text \<open>\<^verbatim>\<open>s.includes(needle)\<close>\<close>

primrec js_includes :: "jsstring \<Rightarrow> jsstring \<Rightarrow> bool" where
  "js_includes [] needle = (needle = [])"
| "js_includes (c # cs) needle = (prefix needle (c # cs) \<or> js_includes cs needle)"

text \<open>
  Case-insensitive comparison under the \<^verbatim>\<open>i\<close> flag. Without the \<^verbatim>\<open>u\<close> flag a code unit
  is canonicalised by upper-casing, and a code unit above 127 is never mapped to one
  below 128; the letters of the patterns in the sources are all ASCII, so a pattern
  letter matches exactly its two ASCII cases.
\<close>

definition canonicalize :: "16 word \<Rightarrow> 16 word" where
  "canonicalize c = (if 0x61 \<le> c \<and> c \<le> 0x7A then c - 0x20 else c)"

definition ci_prefix :: "jsstring \<Rightarrow> jsstring \<Rightarrow> bool" where
  "ci_prefix p s \<longleftrightarrow> prefix (map canonicalize p) (map canonicalize s)"


section \<open>Backtracking search of the regular expressions\<close>

text \<open>
  A backtracking matcher tries the alternatives of a quantifier in a fixed order and
  returns the first complete match. \<open>first_some f xs\<close> is that search over the
  candidates \<open>xs\<close>. A greedy quantifier over a character class offers the longest run
  first (\<open>greedy\<close>), a lazy one the shortest first (\<open>lazy_from\<close>); the candidate is the
  number of code units the quantifier consumes.
\<close>

primrec first_some :: "('a \<Rightarrow> 'b option) \<Rightarrow> 'a list \<Rightarrow> 'b option" where
  "first_some f [] = None"
| "first_some f (x # xs) = (case f x of Some y \<Rightarrow> Some y | None \<Rightarrow> first_some f xs)"

definition greedy :: "('a \<Rightarrow> bool) \<Rightarrow> 'a list \<Rightarrow> nat list" where
  "greedy P s = rev [0..<Suc (length (takeWhile P s))]"

definition greedy_from :: "nat \<Rightarrow> ('a \<Rightarrow> bool) \<Rightarrow> 'a list \<Rightarrow> nat list" where
  "greedy_from m P s = rev [m..<Suc (length (takeWhile P s))]"

definition lazy_from :: "nat \<Rightarrow> ('a \<Rightarrow> bool) \<Rightarrow> 'a list \<Rightarrow> nat list" where
  "lazy_from m P s = [m..<Suc (length (takeWhile P s))]"

text \<open>The start positions a search without \<^verbatim>\<open>^\<close> tries, leftmost first.\<close>

definition starts :: "'a list \<Rightarrow> 'a list list" where
  "starts s = map (\<lambda>i. drop i s) [0..<Suc (length s)]"

text \<open>
  \<^verbatim>\<open>s.replace(re, "")\<close> with the \<^verbatim>\<open>g\<close> flag: scan from the left; where the pattern
  matches, drop the matched code units and resume behind them; elsewhere keep the code
  unit. \<open>m\<close> gives the length of the match starting at the current position; the counter
  is the number of code units of the current match still to drop.
\<close>

primrec remove_all :: "('a list \<Rightarrow> nat option) \<Rightarrow> nat \<Rightarrow> 'a list \<Rightarrow> 'a list" where
  "remove_all m skip [] = []"
| "remove_all m skip (x # xs) =
     (case skip of
        Suc k \<Rightarrow> remove_all m k xs
      | 0 \<Rightarrow> (case m (x # xs) of
               Some (Suc n) \<Rightarrow> remove_all m n xs
             | _ \<Rightarrow> x # remove_all m 0 xs))"


section \<open>types.ts\<close>

text \<open>
  \<^verbatim>\<open>extractJson\<close> returns \<^verbatim>\<open>any\<close>: whatever \<^verbatim>\<open>JSON.parse\<close> produced. A number is
  kept as its lexeme.
\<close>

datatype json =
    JNull
  | JBool bool
  | JNumber jsstring
  | JString jsstring
  | JArray "json list"
  | JObject "(jsstring \<times> json) list"

text \<open>Property lookup on a parsed object: the last occurrence of a key wins.\<close>

definition get_field :: "jsstring \<Rightarrow> json \<Rightarrow> json option" where
  "get_field k v = (case v of JObject kvs \<Rightarrow> map_of (rev kvs) k | _ \<Rightarrow> None)"

definition is_string :: "json option \<Rightarrow> bool" where
  "is_string v = (case v of Some (JString _) \<Rightarrow> True | _ \<Rightarrow> False)"

definition is_string_array :: "json option \<Rightarrow> bool" where
  "is_string_array v =
     (case v of Some (JArray xs) \<Rightarrow> list_all (\<lambda>x. is_string (Some x)) xs | _ \<Rightarrow> False)"

text \<open>
  The shape that \<^verbatim>\<open>interface PosterData\<close> declares: five string fields and two arrays of
  strings.
\<close>

definition is_PosterData :: "json \<Rightarrow> bool" where
  "is_PosterData v \<longleftrightarrow>
     is_string (get_field (ascii ''name'') v) \<and>
     is_string (get_field (ascii ''tag'') v) \<and>
     is_string (get_field (ascii ''shortDescription'') v) \<and>
     is_string (get_field (ascii ''price'') v) \<and>
     is_string (get_field (ascii ''summary'') v) \<and>
     is_string_array (get_field (ascii ''features'') v) \<and>
     is_string_array (get_field (ascii ''imageUrls'') v)"


section \<open>A JSON parser\<close>

text \<open>
  \<^verbatim>\<open>JSON.parse\<close> is a built-in of the runtime, so the model of the service takes it as a
  parameter. \<open>json_parse\<close> is a parser of the JSON grammar (ECMA-404) that instantiates
  the parameter where a statement is evaluated on a concrete response. \<open>None\<close> is the
  \<^verbatim>\<open>SyntaxError\<close>. The recursion is on a fuel counter; a call passes on less fuel only
  after consuming a code unit, and the start value is above twice the input's length.
\<close>

definition json_ws :: "16 word \<Rightarrow> bool" where
  "json_ws c \<longleftrightarrow> c = 0x20 \<or> c = 0x9 \<or> c = 0xA \<or> c = 0xD"

definition is_digit :: "16 word \<Rightarrow> bool" where
  "is_digit c \<longleftrightarrow> 0x30 \<le> c \<and> c \<le> 0x39"

definition hex_value :: "16 word \<Rightarrow> 16 word option" where
  "hex_value c =
     (if 0x30 \<le> c \<and> c \<le> 0x39 then Some (c - 0x30)
      else if 0x41 \<le> c \<and> c \<le> 0x46 then Some (c - 0x37)
      else if 0x61 \<le> c \<and> c \<le> 0x66 then Some (c - 0x57)
      else None)"

definition hex4 :: "16 word \<Rightarrow> 16 word \<Rightarrow> 16 word \<Rightarrow> 16 word \<Rightarrow> 16 word option" where
  "hex4 a b c d =
     (case (hex_value a, hex_value b, hex_value c, hex_value d) of
        (Some x, Some y, Some z, Some w) \<Rightarrow> Some (((x * 16 + y) * 16 + z) * 16 + w)
      | _ \<Rightarrow> None)"

definition unescape :: "16 word \<Rightarrow> 16 word option" where
  "unescape e =
     (if e = 0x22 \<or> e = 0x5C \<or> e = 0x2F then Some e
      else if e = 0x62 then Some 0x8
      else if e = 0x66 then Some 0xC
      else if e = 0x6E then Some 0xA
      else if e = 0x72 then Some 0xD
      else if e = 0x74 then Some 0x9
      else None)"

definition cons_result :: "'a \<Rightarrow> ('a list \<times> 'b) option \<Rightarrow> ('a list \<times> 'b) option" where
  "cons_result x r = (case r of None \<Rightarrow> None | Some (xs, rest) \<Rightarrow> Some (x # xs, rest))"

text \<open>The characters of a string literal, behind the opening quote.\<close>

fun parse_chars :: "jsstring \<Rightarrow> (jsstring \<times> jsstring) option" where
  "parse_chars [] = None"
| "parse_chars (c # cs) =
     (if c = 0x22 then Some ([], cs)
      else if c = 0x5C then
        (case cs of
           [] \<Rightarrow> None
         | e # r \<Rightarrow>
             if e = 0x75 then
               (case r of
                  h1 # h2 # h3 # h4 # r' \<Rightarrow>
                    (case hex4 h1 h2 h3 h4 of
                       None \<Rightarrow> None
                     | Some u \<Rightarrow> cons_result u (parse_chars r'))
                | _ \<Rightarrow> None)
             else
               (case unescape e of
                  None \<Rightarrow> None
                | Some u \<Rightarrow> cons_result u (parse_chars r)))
      else if c < 0x20 then None
      else cons_result c (parse_chars cs))"

text \<open>
  The lexeme of a number:
  \<^verbatim>\<open>-? (0 | [1-9][0-9]*) (\. [0-9]+)? ([eE] [+-]? [0-9]+)?\<close>
\<close>

definition scan_digits :: "jsstring \<Rightarrow> (jsstring \<times> jsstring) option" where
  "scan_digits s =
     (let ds = takeWhile is_digit s
      in if ds = [] then None else Some (ds, dropWhile is_digit s))"

definition scan_int :: "jsstring \<Rightarrow> (jsstring \<times> jsstring) option" where
  "scan_int s =
     (case s of
        [] \<Rightarrow> None
      | c # r \<Rightarrow> if c = 0x30 then Some ([c], r) else scan_digits s)"

definition scan_frac :: "jsstring \<Rightarrow> (jsstring \<times> jsstring) option" where
  "scan_frac s =
     (case s of
        [] \<Rightarrow> Some ([], s)
      | c # r \<Rightarrow>
          if c = 0x2E then
            (case scan_digits r of None \<Rightarrow> None | Some (ds, r') \<Rightarrow> Some (c # ds, r'))
          else Some ([], s))"

definition scan_exp :: "jsstring \<Rightarrow> (jsstring \<times> jsstring) option" where
  "scan_exp s =
     (case s of
        [] \<Rightarrow> Some ([], s)
      | c # r \<Rightarrow>
          if c = 0x65 \<or> c = 0x45 then
            (case r of
               [] \<Rightarrow> None
             | g # r' \<Rightarrow>
                 if g = 0x2B \<or> g = 0x2D then
                   (case scan_digits r' of
                      None \<Rightarrow> None
                    | Some (ds, r'') \<Rightarrow> Some (c # g # ds, r''))
                 else
                   (case scan_digits r of
                      None \<Rightarrow> None
                    | Some (ds, r'') \<Rightarrow> Some (c # ds, r'')))
          else Some ([], s))"

definition scan_number :: "jsstring \<Rightarrow> (jsstring \<times> jsstring) option" where
  "scan_number s =
     (let (sign, s1) = (case s of c # r \<Rightarrow> if c = 0x2D then ([c], r) else ([], s) | [] \<Rightarrow> ([], s))
      in case scan_int s1 of
           None \<Rightarrow> None
         | Some (i, s2) \<Rightarrow>
             (case scan_frac s2 of
                None \<Rightarrow> None
              | Some (f, s3) \<Rightarrow>
                  (case scan_exp s3 of
                     None \<Rightarrow> None
                   | Some (e, s4) \<Rightarrow> Some (sign @ i @ f @ e, s4))))"

definition parse_scalar :: "jsstring \<Rightarrow> (json \<times> jsstring) option" where
  "parse_scalar s =
     (if prefix (ascii ''true'') s then Some (JBool True, drop 4 s)
      else if prefix (ascii ''false'') s then Some (JBool False, drop 5 s)
      else if prefix (ascii ''null'') s then Some (JNull, drop 4 s)
      else (case scan_number s of None \<Rightarrow> None | Some (n, r) \<Rightarrow> Some (JNumber n, r)))"

fun parse_value :: "nat \<Rightarrow> jsstring \<Rightarrow> (json \<times> jsstring) option"
  and parse_elements :: "nat \<Rightarrow> jsstring \<Rightarrow> (json list \<times> jsstring) option"
  and parse_members :: "nat \<Rightarrow> jsstring \<Rightarrow> ((jsstring \<times> json) list \<times> jsstring) option"
where
  "parse_value 0 s = None"
| "parse_value (Suc n) s =
     (case dropWhile json_ws s of
        [] \<Rightarrow> None
      | c # r \<Rightarrow>
          if c = 0x7B then
            (case dropWhile json_ws r of
               [] \<Rightarrow> None
             | d # r' \<Rightarrow>
                 if d = 0x7D then Some (JObject [], r')
                 else (case parse_members n r of
                         None \<Rightarrow> None
                       | Some (kvs, r'') \<Rightarrow> Some (JObject kvs, r'')))
          else if c = 0x5B then
            (case dropWhile json_ws r of
               [] \<Rightarrow> None
             | d # r' \<Rightarrow>
                 if d = 0x5D then Some (JArray [], r')
                 else (case parse_elements n r of
                         None \<Rightarrow> None
                       | Some (vs, r'') \<Rightarrow> Some (JArray vs, r'')))
          else if c = 0x22 then
            (case parse_chars r of None \<Rightarrow> None | Some (str, r') \<Rightarrow> Some (JString str, r'))
          else parse_scalar (c # r))"
| "parse_elements 0 s = None"
| "parse_elements (Suc n) s =
     (case parse_value n s of
        None \<Rightarrow> None
      | Some (v, r) \<Rightarrow>
          (case dropWhile json_ws r of
             [] \<Rightarrow> None
           | c # r' \<Rightarrow>
               if c = 0x2C then cons_result v (parse_elements n r')
               else if c = 0x5D then Some ([v], r')
               else None))"
| "parse_members 0 s = None"
| "parse_members (Suc n) s =
     (case dropWhile json_ws s of
        [] \<Rightarrow> None
      | q # r \<Rightarrow>
          if q = 0x22 then
            (case parse_chars r of
               None \<Rightarrow> None
             | Some (k, r1) \<Rightarrow>
                 (case dropWhile json_ws r1 of
                    [] \<Rightarrow> None
                  | c # r2 \<Rightarrow>
                      if c = 0x3A then
                        (case parse_value n r2 of
                           None \<Rightarrow> None
                         | Some (v, r3) \<Rightarrow>
                             (case dropWhile json_ws r3 of
                                [] \<Rightarrow> None
                              | d # r4 \<Rightarrow>
                                  if d = 0x2C then cons_result (k, v) (parse_members n r4)
                                  else if d = 0x7D then Some ([(k, v)], r4)
                                  else None))
                      else None))
          else None)"

definition json_parse :: "jsstring \<Rightarrow> json option" where
  "json_parse s =
     (case parse_value (2 * length s + 2) s of
        None \<Rightarrow> None
      | Some (v, r) \<Rightarrow> if dropWhile json_ws r = [] then Some v else None)"


section \<open>services/geminiService.ts\<close>

text \<open>
  The module as it stands at the head of the file: the variant that retrieves the page
  itself (\<^verbatim>\<open>fetchUrlContent\<close>) before it calls the generative service.
\<close>

subsection \<open>Errors, promises and the runtime\<close>

text \<open>
  A thrown value: the \<^verbatim>\<open>status\<close> and \<^verbatim>\<open>message\<close> properties that the \<^verbatim>\<open>catch\<close>
  block of \<^verbatim>\<open>analyzeUrl\<close> reads. \<open>Error m\<close> is \<^verbatim>\<open>new Error(m)\<close>, which has no status.
  An awaited promise is either rejected with a thrown value or resolved.
\<close>

record js_error =
  status :: "int option"
  message :: jsstring

definition Error :: "jsstring \<Rightarrow> js_error" where
  "Error m = \<lparr>status = None, message = m\<rparr>"

datatype 'a outcome = Rejected js_error | Resolved 'a

text \<open>What the service reads of a \<^verbatim>\<open>fetch\<close> response: \<^verbatim>\<open>ok\<close> and \<^verbatim>\<open>await text()\<close>.\<close>

record response =
  ok :: bool
  body_text :: "jsstring outcome"

text \<open>
  The parts of the \<^verbatim>\<open>generateContent\<close> request that vary: the key the client was built
  with, the model name, and the two values interpolated into \<^verbatim>\<open>contents\<close>. The
  instruction text and the response schema are constants of the source.
\<close>

record request =
  req_apiKey :: jsstring
  req_model :: jsstring
  req_url :: jsstring
  req_pageContent :: jsstring

text \<open>
  Everything outside the module: the two environment objects (\<open>None\<close> when the object
  is undefined), the built-ins \<^verbatim>\<open>encodeURIComponent\<close> (which throws a \<^verbatim>\<open>URIError\<close>
  on a lone surrogate) and \<^verbatim>\<open>JSON.parse\<close>, the network behind \<^verbatim>\<open>fetch\<close>, and the
  generative service behind \<^verbatim>\<open>ai.models.generateContent\<close>, whose answer is the
  \<^verbatim>\<open>text\<close> property of the response (\<open>None\<close> when undefined).
\<close>

record runtime =
  process_env :: "(jsstring \<Rightarrow> jsstring option) option"
  import_meta_env :: "(jsstring \<Rightarrow> jsstring option) option"
  encodeURIComponent :: "jsstring \<Rightarrow> js_error + jsstring"
  JSON_parse :: "jsstring \<Rightarrow> json option"
  fetch :: "jsstring \<Rightarrow> response outcome"
  generateContent :: "request \<Rightarrow> jsstring option outcome"

text \<open>The calls that leave the process, in the order they are made.\<close>

datatype net_call = Fetch jsstring | Generate request

text \<open>The messages of the errors the module throws.\<close>

definition msg_missing_credential :: jsstring where
  "msg_missing_credential =
    [0x41, 0x50, 0x49, 0x20, 0x4B, 0x65, 0x79, 0x20, 0x7F3A, 0x5931, 0x3002, 0x8BF7, 0x68C0,
     0x67E5, 0x20, 0x56, 0x65, 0x72, 0x63, 0x65, 0x6C, 0x20, 0x73AF, 0x5883, 0x53D8, 0x91CF,
     0x8BBE, 0x7F6E, 0x3002]"

definition msg_fetch_failed :: jsstring where
  "msg_fetch_failed =
    [0x65E0, 0x6CD5, 0x6293, 0x53D6, 0x7F51, 0x9875, 0x5185, 0x5BB9]"

definition msg_empty_response :: jsstring where
  "msg_empty_response =
    [0x41, 0x49, 0x20, 0x672A, 0x8FD4, 0x56DE, 0x5185, 0x5BB9]"

definition msg_malformed_json :: jsstring where
  "msg_malformed_json =
    [0x89E3, 0x6790, 0x20, 0x41, 0x49, 0x20, 0x54CD, 0x5E94, 0x5931, 0x8D25, 0xFF0C, 0x8BF7,
     0x91CD, 0x8BD5, 0x3002]"

definition msg_rate_limited :: jsstring where
  "msg_rate_limited =
    [0x514D, 0x8D39, 0x7248, 0x20, 0x41, 0x50, 0x49, 0x20, 0x8BF7, 0x6C42, 0x592A, 0x5FEB,
     0x4E86, 0x3002, 0x8BF7, 0x7A0D, 0x7B49, 0x20, 0x31, 0x30, 0x20, 0x79D2, 0x949F, 0x518D,
     0x8BD5, 0x3002]"

definition msg_model_unavailable :: jsstring where
  "msg_model_unavailable =
    [0x6A21, 0x578B, 0x20, 0x27, 0x67, 0x65, 0x6D, 0x69, 0x6E, 0x69, 0x2D, 0x33, 0x2D, 0x66,
     0x6C, 0x61, 0x73, 0x68, 0x2D, 0x70, 0x72, 0x65, 0x76, 0x69, 0x65, 0x77, 0x27, 0x20,
     0x4E0D, 0x53EF, 0x7528, 0x20, 0x28, 0x34, 0x30, 0x34, 0x29, 0x3002, 0x8BF7, 0x68C0,
     0x67E5, 0x60A8, 0x7684, 0x20, 0x41, 0x50, 0x49, 0x20, 0x4B, 0x65, 0x79, 0x20, 0x662F,
     0x5426, 0x652F, 0x6301, 0x8BE5, 0x6A21, 0x578B, 0xFF0C, 0x6216, 0x8005, 0x5728, 0x20,
     0x47, 0x6F, 0x6F, 0x67, 0x6C, 0x65, 0x20, 0x41, 0x49, 0x20, 0x53, 0x74, 0x75, 0x64,
     0x69, 0x6F, 0x20, 0x4E2D, 0x542F, 0x7528, 0x5B83, 0x3002]"

definition msg_generic_failure :: jsstring where
  "msg_generic_failure =
    [0x751F, 0x6210, 0x5931, 0x8D25, 0xFF0C, 0x8BF7, 0x91CD, 0x8BD5, 0x3002]"


subsection \<open>extractJson\<close>

text \<open>
  \<^verbatim>\<open>text.match(/```json\s*([\s\S]*?)\s*```/)\<close>. \<open>fence_at s\<close> is the attempt to match at
  the start of \<open>s\<close>: the marker, a greedy run of white space, the lazy group, a greedy
  run of white space, the closing fence. The result is the group. \<open>fence_match\<close> tries
  the start positions from the left.
\<close>

definition fence_close :: "jsstring \<Rightarrow> jsstring \<Rightarrow> jsstring option" where
  "fence_close grp s =
     first_some (\<lambda>k. if prefix (ascii ''```'') (drop k s) then Some grp else None)
       (greedy is_ws s)"

definition fence_group :: "jsstring \<Rightarrow> jsstring option" where
  "fence_group s =
     first_some (\<lambda>n. fence_close (take n s) (drop n s)) [0..<Suc (length s)]"

definition fence_at :: "jsstring \<Rightarrow> jsstring option" where
  "fence_at s =
     (if prefix (ascii ''```json'') s
      then first_some (\<lambda>k. fence_group (drop k (drop 7 s))) (greedy is_ws (drop 7 s))
      else None)"

definition fence_match :: "jsstring \<Rightarrow> jsstring option" where
  "fence_match txt = first_some fence_at (starts txt)"

text \<open>
  \<^verbatim>\<open>extractJson\<close>: every exception of the \<^verbatim>\<open>try\<close> block is replaced by the same new
  error.
\<close>

definition extractJson :: "(jsstring \<Rightarrow> json option) \<Rightarrow> jsstring \<Rightarrow> js_error + json" where
  "extractJson parse txt =
     (case (case fence_match txt of
              Some inner \<Rightarrow> parse inner
            | None \<Rightarrow> parse txt) of
        Some v \<Rightarrow> Inr v
      | None \<Rightarrow> Inl (Error msg_malformed_json))"


subsection \<open>fetchUrlContent\<close>

text \<open>
  The three element patterns have one shape,
  \<^verbatim>\<open>/<name\b[^>]*>([\s\S]*?)<\/name>/gim\<close>: the opening name without regard to case,
  a word boundary (the next code unit, if any, is not a word character), a greedy run
  up to a \<^verbatim>\<open>>\<close>, the lazy group, the closing tag without regard to case. The
  result is the length of the match.
\<close>

definition element_close :: "jsstring \<Rightarrow> nat \<Rightarrow> jsstring \<Rightarrow> nat option" where
  "element_close name len s =
     first_some
       (\<lambda>n. if ci_prefix (ascii ''</'' @ name @ ascii ''>'') (drop n s)
            then Some (len + n + (length name + 3)) else None)
       [0..<Suc (length s)]"

definition element_at :: "jsstring \<Rightarrow> jsstring \<Rightarrow> nat option" where
  "element_at name s =
     (if ci_prefix (ascii ''<'' @ name) s then
        (let r = drop (Suc (length name)) s in
         if (case r of [] \<Rightarrow> True | c # _ \<Rightarrow> \<not> is_word_char c) then
           first_some
             (\<lambda>k. case drop k r of
                     [] \<Rightarrow> None
                   | c # r' \<Rightarrow>
                       if c = 0x3E then element_close name (Suc (length name) + k + 1) r'
                       else None)
             (greedy (\<lambda>c. c \<noteq> 0x3E) r)
         else None)
      else None)"

text \<open>\<^verbatim>\<open>/<!--[\s\S]*?-->/g\<close>\<close>

definition comment_at :: "jsstring \<Rightarrow> nat option" where
  "comment_at s =
     (if prefix (ascii ''<!--'') s then
        first_some
          (\<lambda>n. if prefix (ascii ''-->'') (drop n (drop 4 s)) then Some (4 + n + 3) else None)
          [0..<Suc (length (drop 4 s))]
      else None)"

text \<open>The chain of four \<^verbatim>\<open>replace\<close> calls that builds \<^verbatim>\<open>cleanHtml\<close>.\<close>

definition cleanHtml :: "jsstring \<Rightarrow> jsstring" where
  "cleanHtml html =
     remove_all (element_at (ascii ''svg'')) 0
       (remove_all comment_at 0
          (remove_all (element_at (ascii ''style'')) 0
             (remove_all (element_at (ascii ''script'')) 0 html)))"

definition proxy_url :: "jsstring \<Rightarrow> jsstring" where
  "proxy_url enc = ascii ''https://api.allorigins.win/raw?url='' @ enc"

definition jina_url :: "jsstring \<Rightarrow> jsstring" where
  "jina_url url = ascii ''https://r.jina.ai/'' @ url"

text \<open>
  The \<^verbatim>\<open>try\<close> block of \<^verbatim>\<open>fetchUrlContent\<close>: its outcome (\<open>Inl\<close> for an exception)
  and the requests it made. \<^verbatim>\<open>substring(0, n)\<close> is \<open>take n\<close>.
\<close>

definition fetchUrlContent_try :: "runtime \<Rightarrow> jsstring \<Rightarrow> (js_error + jsstring) \<times> net_call list" where
  "fetchUrlContent_try w url =
     (case encodeURIComponent w url of
        Inl e \<Rightarrow> (Inl e, [])
      | Inr enc \<Rightarrow>
          (case fetch w (proxy_url enc) of
             Rejected e \<Rightarrow> (Inl e, [Fetch (proxy_url enc)])
           | Resolved proxyResponse \<Rightarrow>
               if ok proxyResponse then
                 (case body_text proxyResponse of
                    Rejected e \<Rightarrow> (Inl e, [Fetch (proxy_url enc)])
                  | Resolved html \<Rightarrow>
                      (Inr (take 150000 (cleanHtml html)), [Fetch (proxy_url enc)]))
               else
                 (case fetch w (jina_url url) of
                    Rejected e \<Rightarrow> (Inl e, [Fetch (proxy_url enc), Fetch (jina_url url)])
                  | Resolved jinaResponse \<Rightarrow>
                      if ok jinaResponse then
                        (case body_text jinaResponse of
                           Rejected e \<Rightarrow>
                             (Inl e, [Fetch (proxy_url enc), Fetch (jina_url url)])
                         | Resolved txt \<Rightarrow>
                             (Inr (take 50000 txt),
                              [Fetch (proxy_url enc), Fetch (jina_url url)]))
                      else
                        (Inl (Error msg_fetch_failed),
                         [Fetch (proxy_url enc), Fetch (jina_url url)]))))"

text \<open>\<^verbatim>\<open>fetchUrlContent\<close>: the \<^verbatim>\<open>catch\<close> block returns the empty string.\<close>

definition fetchUrlContent :: "runtime \<Rightarrow> jsstring \<Rightarrow> (js_error + jsstring) \<times> net_call list" where
  "fetchUrlContent w url =
     (case fetchUrlContent_try w url of
        (Inl e, calls) \<Rightarrow> (Inr [], calls)
      | (Inr s, calls) \<Rightarrow> (Inr s, calls))"


subsection \<open>analyzeUrl\<close>

text \<open>
  \<^verbatim>\<open>getEnvVar\<close>: a value counts only if it is truthy, that is, a non-empty string.
\<close>

definition env_lookup :: "(jsstring \<Rightarrow> jsstring option) option \<Rightarrow> jsstring \<Rightarrow> jsstring option" where
  "env_lookup env key =
     (case env of
        None \<Rightarrow> None
      | Some vars \<Rightarrow> (case vars key of None \<Rightarrow> None | Some v \<Rightarrow> if v = [] then None else Some v))"

definition getEnvVar :: "runtime \<Rightarrow> jsstring \<Rightarrow> jsstring option" where
  "getEnvVar w key =
     (case env_lookup (process_env w) key of
        Some v \<Rightarrow> Some v
      | None \<Rightarrow> env_lookup (import_meta_env w) key)"

definition apiKey :: "runtime \<Rightarrow> jsstring option" where
  "apiKey w =
     (case getEnvVar w (ascii ''API_KEY'') of
        Some v \<Rightarrow> Some v
      | None \<Rightarrow>
          (case getEnvVar w (ascii ''VITE_API_KEY'') of
             Some v \<Rightarrow> Some v
           | None \<Rightarrow> getEnvVar w (ascii ''REACT_APP_API_KEY'')))"

text \<open>The \<^verbatim>\<open>catch\<close> block of \<^verbatim>\<open>analyzeUrl\<close>: the error it throws for a caught one.\<close>

definition rethrow :: "js_error \<Rightarrow> js_error" where
  "rethrow e =
     (if status e = Some 429 \<or> (message e \<noteq> [] \<and> js_includes (message e) (ascii ''429''))
      then Error msg_rate_limited
      else if status e = Some 404 then Error msg_model_unavailable
      else Error (if message e \<noteq> [] then message e else msg_generic_failure))"

text \<open>
  The \<^verbatim>\<open>try\<close> block of \<^verbatim>\<open>analyzeUrl\<close>, behind the request: a falsy
  \<^verbatim>\<open>response.text\<close> (undefined or the empty string) is thrown as an error, everything
  else goes to \<^verbatim>\<open>extractJson\<close>.
\<close>

definition analyze_response :: "runtime \<Rightarrow> jsstring option outcome \<Rightarrow> js_error + json" where
  "analyze_response w r =
     (case r of
        Rejected e \<Rightarrow> Inl e
      | Resolved jsonStr \<Rightarrow>
          (case jsonStr of
             None \<Rightarrow> Inl (Error msg_empty_response)
           | Some str \<Rightarrow>
               if str = [] then Inl (Error msg_empty_response)
               else extractJson (JSON_parse w) str))"

text \<open>
  \<^verbatim>\<open>analyzeUrl\<close>: the key check, the page retrieval, then the one request inside
  \<^verbatim>\<open>try\<close>/\<^verbatim>\<open>catch\<close>. Building the client object and writing to the console leave no
  trace in the result and are not modelled.
\<close>

definition analyzeUrl :: "runtime \<Rightarrow> jsstring \<Rightarrow> (js_error + json) \<times> net_call list" where
  "analyzeUrl w url =
     (case apiKey w of
        None \<Rightarrow> (Inl (Error msg_missing_credential), [])
      | Some key \<Rightarrow>
          (case fetchUrlContent w url of
             (Inl e, calls) \<Rightarrow> (Inl e, calls)
           | (Inr pageContent, calls) \<Rightarrow>
               (let req = \<lparr>req_apiKey = key, req_model = ascii ''gemini-3-flash-preview'',
                           req_url = url, req_pageContent = pageContent\<rparr>
                in (case analyze_response w (generateContent w req) of
                      Inl e \<Rightarrow> Inl (rethrow e)
                    | Inr v \<Rightarrow> Inr v,
                    calls @ [Generate req]))))"


section \<open>components/Poster.tsx\<close>

text \<open>
  The component in its variant with the local image state (\<^verbatim>\<open>localImages\<close>) and the
  three-rule title parser.
\<close>

subsection \<open>The captured images\<close>

text \<open>
  The state \<^verbatim>\<open>localImages\<close> and the handlers that set it. The updater
  \<^verbatim>\<open>prev => [...prev, ...newImages].slice(0, 3)\<close> of the paste and upload handlers is
  \<open>mergeCaptured\<close>. The effect on \<^verbatim>\<open>data\<close> copies \<^verbatim>\<open>data.imageUrls\<close> (\<open>None\<close> when
  undefined) into the state.
\<close>

definition mergeCaptured :: "'a list \<Rightarrow> 'a list \<Rightarrow> 'a list" where
  "mergeCaptured prev newImages = take 3 (prev @ newImages)"

definition syncImages :: "'a list option \<Rightarrow> 'a list" where
  "syncImages imageUrls =
     (case imageUrls of
        None \<Rightarrow> []
      | Some urls \<Rightarrow> if length urls > 0 then urls else [])"

text \<open>
  The events: new \<^verbatim>\<open>data\<close>; a paste event (whether an input has the focus, and the
  object URLs of the image items); a file selection; the paste button (\<open>None\<close> when
  reading the clipboard fails); the clear button.
\<close>

datatype 'a image_event =
    DataChanged "'a list option"
  | GlobalPaste bool "'a list"
  | FileUpload "'a list"
  | PasteClick "'a list option"
  | ClearImages

fun image_step :: "'a list \<Rightarrow> 'a image_event \<Rightarrow> 'a list" where
  "image_step prev (DataChanged imageUrls) = syncImages imageUrls"
| "image_step prev (GlobalPaste inputFocused newImages) =
     (if inputFocused then prev
      else if newImages \<noteq> [] then mergeCaptured prev newImages
      else prev)"
| "image_step prev (FileUpload files) =
     (if length files > 0 then mergeCaptured prev files else prev)"
| "image_step prev (PasteClick clip) =
     (case clip of
        None \<Rightarrow> prev
      | Some newImages \<Rightarrow> if length newImages > 0 then mergeCaptured prev newImages else prev)"
| "image_step prev ClearImages = []"

definition image_run :: "'a image_event list \<Rightarrow> 'a list" where
  "image_run evs = foldl image_step [] evs"

text \<open>The number of images an event copies from \<^verbatim>\<open>data.imageUrls\<close>.\<close>

fun seed_length :: "'a image_event \<Rightarrow> nat" where
  "seed_length (DataChanged (Some urls)) = length urls"
| "seed_length _ = 0"


subsection \<open>The title\<close>

text \<open>
  \<^verbatim>\<open>raw.match(/(?:\<dots>)?\s*(.+?)\s*\<cdot>\s*(.+?)\s*(?:\<dots>)?$/)\<close>, where the optional
  characters are the brackets U+3010 and U+3011 and the separator is the middle dot
  U+00B7. The pattern has no \<^verbatim>\<open>^\<close>, so every start position is tried. \<open>dot_tail\<close> is
  the part of the pattern behind the middle dot and yields the second group; \<open>dot_at\<close>
  is a match attempt at the start of its argument and yields both groups.
\<close>

definition middle_dot :: "16 word" where "middle_dot = 0xB7"
definition left_bracket :: "16 word" where "left_bracket = 0x3010"
definition right_bracket :: "16 word" where "right_bracket = 0x3011"
definition hyphen :: "16 word" where "hyphen = 0x2D"

text \<open>An optional character, greedy: first with it, then without.\<close>

definition optional :: "'a \<Rightarrow> 'a list \<Rightarrow> 'a list list" where
  "optional c s = (case s of [] \<Rightarrow> [s] | x # r \<Rightarrow> if x = c then [r, s] else [s])"

definition dot_end :: "jsstring \<Rightarrow> jsstring \<Rightarrow> jsstring option" where
  "dot_end grp s =
     first_some
       (\<lambda>k. first_some (\<lambda>r. if r = [] then Some grp else None)
              (optional right_bracket (drop k s)))
       (greedy is_ws s)"

definition dot_tail :: "jsstring \<Rightarrow> jsstring option" where
  "dot_tail s =
     first_some
       (\<lambda>k. first_some (\<lambda>n. dot_end (take n (drop k s)) (drop n (drop k s)))
              (lazy_from 1 not_line_terminator (drop k s)))
       (greedy is_ws s)"

definition dot_sep :: "jsstring \<Rightarrow> jsstring \<Rightarrow> (jsstring \<times> jsstring) option" where
  "dot_sep grp s =
     first_some
       (\<lambda>k. case drop k s of
               [] \<Rightarrow> None
             | c # r \<Rightarrow>
                 if c = middle_dot
                 then (case dot_tail r of None \<Rightarrow> None | Some g2 \<Rightarrow> Some (grp, g2))
                 else None)
       (greedy is_ws s)"

definition dot_lead :: "jsstring \<Rightarrow> (jsstring \<times> jsstring) option" where
  "dot_lead s =
     first_some
       (\<lambda>k. first_some (\<lambda>n. dot_sep (take n (drop k s)) (drop n (drop k s)))
              (lazy_from 1 not_line_terminator (drop k s)))
       (greedy is_ws s)"

definition dot_at :: "jsstring \<Rightarrow> (jsstring \<times> jsstring) option" where
  "dot_at s = first_some dot_lead (optional left_bracket s)"

definition matchDot :: "jsstring \<Rightarrow> (jsstring \<times> jsstring) option" where
  "matchDot raw = first_some dot_at (starts raw)"

text \<open>
  \<^verbatim>\<open>raw.match(/^([a-zA-Z0-9\s]+)\s*-\s*(.+)$/)\<close>: both groups are greedy.
\<close>

definition alnum_or_ws :: "16 word \<Rightarrow> bool" where
  "alnum_or_ws c \<longleftrightarrow> is_alnum c \<or> is_ws c"

definition hyphen_tail :: "jsstring \<Rightarrow> jsstring option" where
  "hyphen_tail s =
     first_some
       (\<lambda>k. first_some
              (\<lambda>n. if drop n (drop k s) = [] then Some (take n (drop k s)) else None)
              (greedy_from 1 not_line_terminator (drop k s)))
       (greedy is_ws s)"

definition hyphen_sep :: "jsstring \<Rightarrow> jsstring \<Rightarrow> (jsstring \<times> jsstring) option" where
  "hyphen_sep grp s =
     first_some
       (\<lambda>k. case drop k s of
               [] \<Rightarrow> None
             | c # r \<Rightarrow>
                 if c = hyphen
                 then (case hyphen_tail r of None \<Rightarrow> None | Some g2 \<Rightarrow> Some (grp, g2))
                 else None)
       (greedy is_ws s)"

definition matchHyphen :: "jsstring \<Rightarrow> (jsstring \<times> jsstring) option" where
  "matchHyphen raw =
     first_some (\<lambda>n. hyphen_sep (take n raw) (drop n raw)) (greedy_from 1 alnum_or_ws raw)"

text \<open>
  \<^verbatim>\<open>s.split(sep)\<close> for a non-empty separator: the pieces between the occurrences found
  from the left, each search resuming behind the last occurrence. \<open>acc\<close> is the current
  piece, reversed; the counter is the number of code units of the current occurrence
  still to skip. \<^verbatim>\<open>parts.join(sep)\<close> is \<open>js_join\<close>.
\<close>

primrec split_scan :: "'a list \<Rightarrow> nat \<Rightarrow> 'a list \<Rightarrow> 'a list \<Rightarrow> 'a list list" where
  "split_scan sep skip acc [] = [rev acc]"
| "split_scan sep skip acc (x # xs) =
     (case skip of
        Suc k \<Rightarrow> split_scan sep k acc xs
      | 0 \<Rightarrow> if prefix sep (x # xs)
             then rev acc # split_scan sep (length sep - 1) [] xs
             else split_scan sep 0 (x # acc) xs)"

definition js_split :: "'a list \<Rightarrow> 'a list \<Rightarrow> 'a list list" where
  "js_split s sep = split_scan sep 0 [] s"

fun js_join :: "'a list list \<Rightarrow> 'a list \<Rightarrow> 'a list" where
  "js_join [] sep = []"
| "js_join [p] sep = p"
| "js_join (p # q # ps) sep = p @ sep @ js_join (q # ps) sep"

record title_parts =
  engName :: jsstring
  cnName :: jsstring

text \<open>The body of the \<^verbatim>\<open>useMemo\<close> that computes \<^verbatim>\<open>engName\<close> and \<^verbatim>\<open>cnName\<close>.\<close>

definition splitTitle :: "jsstring \<Rightarrow> title_parts" where
  "splitTitle name =
     (let raw = trim name in
      case matchDot raw of
        Some (g1, g2) \<Rightarrow> \<lparr>engName = trim g1, cnName = trim g2\<rparr>
      | None \<Rightarrow>
          if js_includes raw (ascii '' - '') then
            (let parts = js_split raw (ascii '' - '')
             in \<lparr>engName = trim (hd parts), cnName = trim (js_join (tl parts) (ascii '' - ''))\<rparr>)
          else
            (case matchHyphen raw of
               Some (g1, g2) \<Rightarrow> \<lparr>engName = trim g1, cnName = trim g2\<rparr>
             | None \<Rightarrow> \<lparr>engName = [], cnName = raw\<rparr>))"


section \<open>Conditions of the specification and concrete runtimes\<close>

text \<open>
  No credential is configured: none of the three keys has a non-empty value in either
  environment object.
\<close>

definition credential_keys :: "jsstring list" where
  "credential_keys = [ascii ''API_KEY'', ascii ''VITE_API_KEY'', ascii ''REACT_APP_API_KEY'']"

definition unset_in :: "(jsstring \<Rightarrow> jsstring option) option \<Rightarrow> jsstring \<Rightarrow> bool" where
  "unset_in env key =
     (case env of None \<Rightarrow> True | Some vars \<Rightarrow> vars key = None \<or> vars key = Some [])"

definition no_credential :: "runtime \<Rightarrow> bool" where
  "no_credential w \<longleftrightarrow>
     list_all (\<lambda>key. unset_in (process_env w) key \<and> unset_in (import_meta_env w) key)
       credential_keys"

text \<open>
  A retrieval strategy fails: the request is rejected, the status is not OK, or reading
  the body is rejected.
\<close>

definition strategy_failed :: "response outcome \<Rightarrow> bool" where
  "strategy_failed r =
     (case r of
        Rejected e \<Rightarrow> True
      | Resolved resp \<Rightarrow>
          \<not> ok resp \<or> (case body_text resp of Rejected e \<Rightarrow> True | Resolved b \<Rightarrow> False))"

text \<open>
  \<^verbatim>\<open>encodeURIComponent\<close> as ECMAScript defines it: the unreserved characters stay, every
  other code point is written as the percent-escaped bytes of its UTF-8 encoding, and a
  surrogate without its partner is a \<^verbatim>\<open>URIError\<close>.
\<close>

definition uri_unreserved :: "16 word \<Rightarrow> bool" where
  "uri_unreserved c \<longleftrightarrow>
     is_alnum c \<or> c = 0x2D \<or> c = 0x5F \<or> c = 0x2E \<or> c = 0x21 \<or> c = 0x7E \<or> c = 0x2A \<or>
     c = 0x27 \<or> c = 0x28 \<or> c = 0x29"

definition hex_digit :: "16 word \<Rightarrow> 16 word" where
  "hex_digit n = (if n < 10 then 0x30 + n else 0x37 + n)"

definition percent :: "16 word \<Rightarrow> jsstring" where
  "percent b = [0x25, hex_digit (b div 16), hex_digit (b mod 16)]"

definition uri_error :: js_error where
  "uri_error = Error (ascii ''URI malformed'')"

definition prepend :: "jsstring \<Rightarrow> js_error + jsstring \<Rightarrow> js_error + jsstring" where
  "prepend p r = (case r of Inl e \<Rightarrow> Inl e | Inr s \<Rightarrow> Inr (p @ s))"

fun uri_encode :: "jsstring \<Rightarrow> js_error + jsstring" where
  "uri_encode [] = Inr []"
| "uri_encode (c # cs) =
     (if uri_unreserved c then prepend [c] (uri_encode cs)
      else if c < 0x80 then prepend (percent c) (uri_encode cs)
      else if c < 0x800 then
        prepend (percent (0xC0 + c div 64) @ percent (0x80 + c mod 64)) (uri_encode cs)
      else if 0xD800 \<le> c \<and> c \<le> 0xDBFF then
        (case cs of
           [] \<Rightarrow> Inl uri_error
         | d # r \<Rightarrow>
             if 0xDC00 \<le> d \<and> d \<le> 0xDFFF then
               (let hi = c - 0xD800; lo = d - 0xDC00; u = hi div 64 + 1
                in prepend
                     (percent (0xF0 + u div 4) @
                      percent (0x80 + (u mod 4) * 16 + (hi div 4) mod 16) @
                      percent (0x80 + (hi mod 4) * 16 + lo div 64) @
                      percent (0x80 + lo mod 64))
                     (uri_encode r))
             else Inl uri_error)
      else if 0xDC00 \<le> c \<and> c \<le> 0xDFFF then Inl uri_error
      else
        prepend
          (percent (0xE0 + c div 4096) @ percent (0x80 + (c div 64) mod 64) @
           percent (0x80 + c mod 64))
          (uri_encode cs))"

text \<open>
  A runtime with a key in \<^verbatim>\<open>process.env.API_KEY\<close>, the two built-ins, a network that
  answers the raw-HTML proxy with \<open>a\<close> and every other host with \<open>b\<close>, and a generative service
  that answers \<open>g\<close>. \<open>offline\<close> has no key and no network.
\<close>

definition network_error :: js_error where
  "network_error = Error (ascii ''Failed to fetch'')"

definition demo_runtime ::
  "response outcome \<Rightarrow> response outcome \<Rightarrow> jsstring option outcome \<Rightarrow> runtime" where
  "demo_runtime a b g =
     \<lparr>process_env = Some (\<lambda>k. if k = ascii ''API_KEY'' then Some (ascii ''secret'') else None),
      import_meta_env = None,
      encodeURIComponent = uri_encode,
      JSON_parse = json_parse,
      fetch = (\<lambda>u. if prefix (ascii ''https://api.allorigins.win/'') u then a else b),
      generateContent = (\<lambda>req. g)\<rparr>"

definition offline :: runtime where
  "offline =
     \<lparr>process_env = Some (\<lambda>k. if k = ascii ''API_KEY'' then Some [] else None),
      import_meta_env = None,
      encodeURIComponent = uri_encode,
      JSON_parse = json_parse,
      fetch = (\<lambda>u. Rejected network_error),
      generateContent = (\<lambda>req. Rejected network_error)\<rparr>"

definition page_ok :: "jsstring \<Rightarrow> response outcome" where
  "page_ok b = Resolved \<lparr>ok = True, body_text = Resolved b\<rparr>"

definition page_not_ok :: "response outcome" where
  "page_not_ok = Resolved \<lparr>ok = False, body_text = Resolved []\<rparr>"

definition demo_url :: jsstring where
  "demo_url = ascii ''https://example.com/r/1''"

text \<open>
  Responses of the generative service: a record inside a fenced block, and the record
  of the specification's test with \<^verbatim>\<open>features\<close> as a string instead of a sequence.
\<close>

definition demo_fenced :: jsstring where
  "demo_fenced =
     ascii ''Here it is: ```json'' @ [0xA] @ ascii ''{\"name\": \"A\"}'' @ [0xA] @ ascii ''``` Done.''"

definition demo_mistyped :: jsstring where
  "demo_mistyped =
     ascii ''{\"name\":\"A\",\"tag\":\"t\",\"shortDescription\":\"s\",\"price\":\"p\",\"summary\":\"m\",\"features\":\"x\",\"imageUrls\":[]}''"

definition demo_mistyped_value :: json where
  "demo_mistyped_value =
     JObject [(ascii ''name'', JString (ascii ''A'')), (ascii ''tag'', JString (ascii ''t'')),
              (ascii ''shortDescription'', JString (ascii ''s'')),
              (ascii ''price'', JString (ascii ''p'')), (ascii ''summary'', JString (ascii ''m'')),
              (ascii ''features'', JString (ascii ''x'')), (ascii ''imageUrls'', JArray [])]"

text \<open>The request that \<^verbatim>\<open>analyzeUrl\<close> sends for \<open>demo_url\<close> when no page was retrieved.\<close>

definition demo_request :: request where
  "demo_request =
     \<lparr>req_apiKey = ascii ''secret'', req_model = ascii ''gemini-3-flash-preview'',
      req_url = demo_url, req_pageContent = []\<rparr>"

text \<open>
  A title has a recognised separator when it holds a middle dot, or the substring
  \<^verbatim>\<open>" - "\<close>, or a hyphen right behind a non-empty leading run of letters, digits and
  white space.
\<close>

definition has_separator :: "jsstring \<Rightarrow> bool" where
  "has_separator s \<longleftrightarrow>
     middle_dot \<in> set s \<or> js_includes s (ascii '' - '') \<or>
     (takeWhile alnum_or_ws s \<noteq> [] \<and>
      (case dropWhile alnum_or_ws s of [] \<Rightarrow> False | c # r \<Rightarrow> c = hyphen))"












section \<open>Lemmas on strings and on the backtracking search\<close>

lemma length_ascii [simp]: "length (ascii s) = length s"
  by (simp add: ascii_def)

lemma first_some_SomeD: "first_some f xs = Some y \<Longrightarrow> \<exists>x\<in>set xs. f x = Some y"
  by (induction xs) (auto split: option.splits)

lemma first_some_None_iff: "first_some f xs = None \<longleftrightarrow> (\<forall>x\<in>set xs. f x = None)"
  by (induction xs) (auto split: option.splits)

lemma first_some_hit: "x \<in> set xs \<Longrightarrow> f x \<noteq> None \<Longrightarrow> first_some f xs \<noteq> None"
  by (simp add: first_some_None_iff) blast

lemma set_greedy: "set (greedy P s) = {k. k \<le> length (takeWhile P s)}"
  by (auto simp: greedy_def)

lemma take_run_all: "k \<le> length (takeWhile P s) \<Longrightarrow> \<forall>x\<in>set (take k s). P x"
proof (induction s arbitrary: k)
  case Nil
  then show ?case by simp
next
  case (Cons a s)
  then show ?case by (cases k) (auto split: if_splits)
qed

lemma set_starts: "set (starts s) = {drop i s |i. i \<le> length s}"
  by (auto simp: starts_def)


section \<open>The captured images\<close>

lemma image_step_bounded:
  "length prev \<le> 3 \<Longrightarrow> seed_length ev \<le> 3 \<Longrightarrow> length (image_step prev ev) \<le> 3"
  by (cases ev) (auto simp: mergeCaptured_def syncImages_def split: option.splits)

lemma image_fold_bounded:
  "length s \<le> 3 \<Longrightarrow> \<forall>ev\<in>set evs. seed_length ev \<le> 3 \<Longrightarrow>
     length (foldl image_step s evs) \<le> 3"
proof (induction evs arbitrary: s)
  case Nil
  then show ?case by simp
next
  case (Cons ev evs)
  then show ?case by (simp add: image_step_bounded)
qed

text \<open>
  C2, as the code has it. The merge of the paste and upload handlers appends the
  incoming images behind the existing ones and keeps the first three, so its result
  never has more than three elements, and \<open>mergeCaptured [a, b] [c, d, e] = [a, b, c]\<close>.
  The effect that seeds the state from \<^verbatim>\<open>data.imageUrls\<close> does not go through the
  merge: it stores the sequence as supplied. Hence the state never exceeds three
  elements as long as every seed has at most three, and in general the state right
  after a seed is that seed.
\<close>

theorem capture_cap:
  "mergeCaptured prev new = take 3 (prev @ new)
   \<and> length (mergeCaptured prev new) \<le> 3
   \<and> mergeCaptured [a, b] [c, d, e] = [a, b, c]
   \<and> ((\<forall>ev\<in>set evs. seed_length ev \<le> 3) \<longrightarrow> length (image_run evs) \<le> 3)
   \<and> image_run (evs @ [DataChanged (Some urls)]) = urls"
proof -
  have "image_run (evs @ [DataChanged (Some urls)]) = urls"
    by (simp add: image_run_def syncImages_def)
  moreover have "(\<forall>ev\<in>set evs. seed_length ev \<le> 3) \<longrightarrow> length (image_run evs) \<le> 3"
    unfolding image_run_def using image_fold_bounded [of "[]" evs] by simp
  ultimately show ?thesis
    by (simp add: mergeCaptured_def)
qed

theorem capture_cap_witness:
  "seed_length (DataChanged (Some [ascii ''u1'', ascii ''u2''])) \<le> 3
   \<and> seed_length (FileUpload [ascii ''b1'', ascii ''b2'', ascii ''b3'']) \<le> 3
   \<and> image_run [DataChanged (Some [ascii ''u1'', ascii ''u2'']),
                FileUpload [ascii ''b1'', ascii ''b2'', ascii ''b3'']]
       = [ascii ''u1'', ascii ''u2'', ascii ''b1'']
   \<and> length (image_run [DataChanged (Some [ascii ''u1'', ascii ''u2'']),
                        FileUpload [ascii ''b1'', ascii ''b2'', ascii ''b3'']]) \<le> 3"
  using capture_cap [of "[]" "[]" "[]" "[]" "[]" "[]" "[]"
      "[DataChanged (Some [ascii ''u1'', ascii ''u2'']),
        FileUpload [ascii ''b1'', ascii ''b2'', ascii ''b3'']]" "[]"]
  by (simp add: image_run_def syncImages_def mergeCaptured_def)

text \<open>
  C2 as stated fails: a response with four image URLs seeds a state of length four.
\<close>

theorem seeding_not_capped_counterexample:
  "\<not> length (image_run
        [DataChanged (Some [ascii ''u1'', ascii ''u2'', ascii ''u3'', ascii ''u4''])]) \<le> 3"
  by (simp add: image_run_def syncImages_def)


section \<open>The credential check\<close>

lemma unset_lookup: "unset_in env key \<Longrightarrow> env_lookup env key = None"
  by (auto simp: unset_in_def env_lookup_def split: option.splits)

lemma no_credential_apiKey: "no_credential w \<Longrightarrow> apiKey w = None"
  by (simp add: no_credential_def credential_keys_def apiKey_def getEnvVar_def unset_lookup)

text \<open>
  C8. Without a credential \<^verbatim>\<open>analyzeUrl\<close> throws the error of the missing key and has
  made no call: neither a page request nor the generative request.
\<close>

theorem missing_credential_before_network:
  "no_credential w \<Longrightarrow> analyzeUrl w url = (Inl (Error msg_missing_credential), [])"
  by (simp add: analyzeUrl_def no_credential_apiKey)

theorem missing_credential_witness:
  "no_credential offline \<and> analyzeUrl offline demo_url = (Inl (Error msg_missing_credential), [])"
proof -
  have h: "no_credential offline"
    by (simp add: no_credential_def credential_keys_def unset_in_def offline_def)
  from h missing_credential_before_network [OF h, of demo_url] show ?thesis by simp
qed


section \<open>The fenced block and extractJson\<close>

lemma fence_close_SomeD:
  "fence_close grp s = Some g \<Longrightarrow>
     g = grp \<and> (\<exists>k. (\<forall>x\<in>set (take k s). is_ws x) \<and> prefix (ascii ''```'') (drop k s))"
proof -
  assume "fence_close grp s = Some g"
  then obtain k where k: "k \<le> length (takeWhile is_ws s)"
    and r: "(if prefix (ascii ''```'') (drop k s) then Some grp else None) = Some g"
    unfolding fence_close_def by (auto dest!: first_some_SomeD simp: set_greedy)
  from r have "g = grp" "prefix (ascii ''```'') (drop k s)" by (auto split: if_splits)
  with take_run_all [OF k] show ?thesis by blast
qed

lemma fence_group_SomeD:
  "fence_group s = Some g \<Longrightarrow>
     \<exists>w post. s = g @ w @ ascii ''```'' @ post \<and> (\<forall>x\<in>set w. is_ws x)"
proof -
  assume "fence_group s = Some g"
  then obtain n where n: "fence_close (take n s) (drop n s) = Some g"
    unfolding fence_group_def by (auto dest!: first_some_SomeD)
  from fence_close_SomeD [OF n] obtain k where
    g: "g = take n s" and ws: "\<forall>x\<in>set (take k (drop n s)). is_ws x"
    and p: "prefix (ascii ''```'') (drop k (drop n s))" by blast
  from p obtain post where post: "drop k (drop n s) = ascii ''```'' @ post"
    by (auto simp: prefix_def)
  have "s = take n s @ take k (drop n s) @ drop k (drop n s)"
    by (metis append_take_drop_id)
  with g post ws show ?thesis by metis
qed

lemma drop_marker: "drop 7 (ascii ''```json'' @ r) = r"
  by simp

lemma fence_at_SomeD:
  "fence_at s = Some g \<Longrightarrow>
     \<exists>w1 w2 post. s = ascii ''```json'' @ w1 @ g @ w2 @ ascii ''```'' @ post
        \<and> (\<forall>x\<in>set w1. is_ws x) \<and> (\<forall>x\<in>set w2. is_ws x)"
proof -
  assume a: "fence_at s = Some g"
  then have "prefix (ascii ''```json'') s" by (auto simp: fence_at_def split: if_splits)
  then obtain r where s: "s = ascii ''```json'' @ r" by (auto simp: prefix_def)
  from a s obtain k where k: "k \<le> length (takeWhile is_ws r)"
    and fg: "fence_group (drop k r) = Some g"
    by (auto simp: fence_at_def drop_marker set_greedy dest!: first_some_SomeD split: if_splits)
  from fence_group_SomeD [OF fg] obtain w post where
    w: "drop k r = g @ w @ ascii ''```'' @ post" "\<forall>x\<in>set w. is_ws x" by blast
  have "r = take k r @ drop k r" by simp
  with w have "s = ascii ''```json'' @ take k r @ g @ w @ ascii ''```'' @ post"
    using s by metis
  with take_run_all [OF k] w(2) show ?thesis by blast
qed

lemma fence_match_SomeD:
  "fence_match txt = Some g \<Longrightarrow>
     \<exists>pre w1 w2 post. txt = pre @ ascii ''```json'' @ w1 @ g @ w2 @ ascii ''```'' @ post
        \<and> (\<forall>x\<in>set w1. is_ws x) \<and> (\<forall>x\<in>set w2. is_ws x)"
proof -
  assume "fence_match txt = Some g"
  then obtain i where "fence_at (drop i txt) = Some g"
    by (auto simp: fence_match_def set_starts dest!: first_some_SomeD)
  from fence_at_SomeD [OF this] obtain w1 w2 post where
    d: "drop i txt = ascii ''```json'' @ w1 @ g @ w2 @ ascii ''```'' @ post"
    and ws: "\<forall>x\<in>set w1. is_ws x" "\<forall>x\<in>set w2. is_ws x" by blast
  have "txt = take i txt @ drop i txt" by simp
  with d have "txt = take i txt @ ascii ''```json'' @ w1 @ g @ w2 @ ascii ''```'' @ post"
    by metis
  with ws show ?thesis by blast
qed

lemma fence_match_found:
  "fence_match (pre @ ascii ''```json'' @ mid @ ascii ''```'' @ post) \<noteq> None"
proof -
  let ?s = "ascii ''```json'' @ mid @ ascii ''```'' @ post"
  have c: "fence_close (take (length mid) (mid @ ascii ''```'' @ post))
             (drop (length mid) (mid @ ascii ''```'' @ post)) \<noteq> None"
    unfolding fence_close_def
    by (rule first_some_hit [where x = 0]) (simp_all add: set_greedy)
  have g: "fence_group (mid @ ascii ''```'' @ post) \<noteq> None"
    unfolding fence_group_def
    by (rule first_some_hit [where x = "length mid"]) (use c in simp_all)
  have "fence_at ?s =
      first_some (\<lambda>k. fence_group (drop k (mid @ ascii ''```'' @ post)))
        (greedy is_ws (mid @ ascii ''```'' @ post))"
    by (simp only: fence_at_def drop_marker prefix_append prefix_order.refl simp_thms if_True)
  moreover have "\<dots> \<noteq> None"
    by (rule first_some_hit [where x = 0]) (use g in \<open>simp_all add: set_greedy\<close>)
  ultimately have a: "fence_at ?s \<noteq> None" by simp
  show ?thesis
    unfolding fence_match_def
    apply (rule first_some_hit [where x = "?s"])
    using a by (auto simp: set_starts intro!: exI [where x = "length pre"])
qed

text \<open>
  C3. A fenced block is found exactly when the text holds the marker \<^verbatim>\<open>```json\<close> with
  a closing fence somewhere behind it; its interior lies between the two, without the
  white space around it. When a block is found, \<^verbatim>\<open>extractJson\<close> parses the interior
  and nothing else; otherwise it parses the whole text. In both branches a failure of
  the parser becomes the one error with the parse-failure message, and a success is
  returned as it is: there is no second attempt.
\<close>

theorem extractJson_parsing_order:
  "(fence_match txt \<noteq> None \<longleftrightarrow>
      (\<exists>pre mid post. txt = pre @ ascii ''```json'' @ mid @ ascii ''```'' @ post))
   \<and> (\<forall>inner. fence_match txt = Some inner \<longrightarrow>
        (\<exists>pre w1 w2 post. txt = pre @ ascii ''```json'' @ w1 @ inner @ w2 @ ascii ''```'' @ post
           \<and> (\<forall>x\<in>set w1. is_ws x) \<and> (\<forall>x\<in>set w2. is_ws x))
        \<and> extractJson parse txt =
            (case parse inner of Some v \<Rightarrow> Inr v | None \<Rightarrow> Inl (Error msg_malformed_json)))
   \<and> (fence_match txt = None \<longrightarrow>
        extractJson parse txt =
          (case parse txt of Some v \<Rightarrow> Inr v | None \<Rightarrow> Inl (Error msg_malformed_json)))"
proof -
  have found: "fence_match txt \<noteq> None \<longleftrightarrow>
      (\<exists>pre mid post. txt = pre @ ascii ''```json'' @ mid @ ascii ''```'' @ post)"
  proof
    assume "fence_match txt \<noteq> None"
    then obtain g where "fence_match txt = Some g" by blast
    from fence_match_SomeD [OF this] obtain pre w1 w2 post where
      "txt = pre @ ascii ''```json'' @ (w1 @ g @ w2) @ ascii ''```'' @ post" by auto
    then show "\<exists>pre mid post. txt = pre @ ascii ''```json'' @ mid @ ascii ''```'' @ post"
      by blast
  next
    assume "\<exists>pre mid post. txt = pre @ ascii ''```json'' @ mid @ ascii ''```'' @ post"
    then show "fence_match txt \<noteq> None" using fence_match_found by blast
  qed
  have inner: "\<forall>inner. fence_match txt = Some inner \<longrightarrow>
        (\<exists>pre w1 w2 post. txt = pre @ ascii ''```json'' @ w1 @ inner @ w2 @ ascii ''```'' @ post
           \<and> (\<forall>x\<in>set w1. is_ws x) \<and> (\<forall>x\<in>set w2. is_ws x))
        \<and> extractJson parse txt =
            (case parse inner of Some v \<Rightarrow> Inr v | None \<Rightarrow> Inl (Error msg_malformed_json))"
    using fence_match_SomeD by (simp add: extractJson_def)
  have whole: "fence_match txt = None \<longrightarrow>
        extractJson parse txt =
          (case parse txt of Some v \<Rightarrow> Inr v | None \<Rightarrow> Inl (Error msg_malformed_json))"
    by (simp add: extractJson_def)
  from found inner whole show ?thesis by blast
qed

lemma fence_match_no_backtick: "0x60 \<notin> set txt \<Longrightarrow> fence_match txt = None"
proof (rule ccontr)
  assume free: "0x60 \<notin> set txt" and "fence_match txt \<noteq> None"
  then obtain g where "fence_match txt = Some g" by blast
  from fence_match_SomeD [OF this] obtain pre rest where
    "txt = pre @ ascii ''```json'' @ rest" by blast
  then have "0x60 \<in> set txt" by (simp add: ascii_def)
  with free show False by simp
qed

lemma demo_fenced_match: "fence_match demo_fenced = Some (ascii ''{\"name\": \"A\"}'')"
  by code_simp

lemma demo_fenced_parse:
  "json_parse (ascii ''{\"name\": \"A\"}'') = Some (JObject [(ascii ''name'', JString (ascii ''A''))])"
  by code_simp

lemma demo_plain_match: "fence_match (ascii ''{}'') = None"
  by (rule fence_match_no_backtick) (simp add: ascii_def)

lemma demo_plain_parse: "json_parse (ascii ''{}'') = Some (JObject [])"
  by code_simp

lemma demo_prose_match: "fence_match (ascii ''Sorry'') = None"
  by (rule fence_match_no_backtick) (simp add: ascii_def)

lemma demo_prose_parse: "json_parse (ascii ''Sorry'') = None"
  by code_simp

theorem extractJson_parsing_order_witness:
  "fence_match demo_fenced = Some (ascii ''{\"name\": \"A\"}'')
   \<and> extractJson json_parse demo_fenced = Inr (JObject [(ascii ''name'', JString (ascii ''A''))])
   \<and> fence_match (ascii ''{}'') = None
   \<and> extractJson json_parse (ascii ''{}'') = Inr (JObject [])
   \<and> fence_match (ascii ''Sorry'') = None
   \<and> extractJson json_parse (ascii ''Sorry'') = Inl (Error msg_malformed_json)"
  using extractJson_parsing_order [of demo_fenced json_parse]
    extractJson_parsing_order [of "ascii ''{}''" json_parse]
    extractJson_parsing_order [of "ascii ''Sorry''" json_parse]
  by (simp add: demo_fenced_match demo_fenced_parse demo_plain_match demo_plain_parse
      demo_prose_match demo_prose_parse)


section \<open>Page retrieval\<close>

lemma fetchUrlContent_returns: "\<exists>s calls. fetchUrlContent w url = (Inr s, calls)"
  by (cases "fetchUrlContent_try w url") (auto simp: fetchUrlContent_def split: sum.splits)

lemma proxy_not_jina: "Fetch (proxy_url enc) \<noteq> Fetch (jina_url url)"
  by (simp add: proxy_url_def jina_url_def ascii_def)

lemma fetchUrlContent_uri_error:
  "encodeURIComponent w url = Inl e \<Longrightarrow> fetchUrlContent w url = (Inr [], [])"
  by (simp add: fetchUrlContent_def fetchUrlContent_try_def)

lemma fetchUrlContent_proxy_rejected:
  "encodeURIComponent w url = Inr enc \<Longrightarrow> fetch w (proxy_url enc) = Rejected e \<Longrightarrow>
     fetchUrlContent w url = (Inr [], [Fetch (proxy_url enc)])"
  by (simp add: fetchUrlContent_def fetchUrlContent_try_def)

lemma fetchUrlContent_proxy_ok:
  "encodeURIComponent w url = Inr enc \<Longrightarrow> fetch w (proxy_url enc) = Resolved r \<Longrightarrow> ok r \<Longrightarrow>
     snd (fetchUrlContent w url) = [Fetch (proxy_url enc)]
     \<and> fst (fetchUrlContent w url) =
         (case body_text r of
            Rejected e \<Rightarrow> Inr []
          | Resolved html \<Rightarrow> Inr (take 150000 (cleanHtml html)))"
  by (simp add: fetchUrlContent_def fetchUrlContent_try_def split: outcome.splits)

lemma fetchUrlContent_fallback:
  "encodeURIComponent w url = Inr enc \<Longrightarrow> fetch w (proxy_url enc) = Resolved r \<Longrightarrow> \<not> ok r \<Longrightarrow>
     snd (fetchUrlContent w url) = [Fetch (proxy_url enc), Fetch (jina_url url)]
     \<and> fst (fetchUrlContent w url) =
         (case fetch w (jina_url url) of
            Rejected e \<Rightarrow> Inr []
          | Resolved j \<Rightarrow>
              if ok j then (case body_text j of
                              Rejected e \<Rightarrow> Inr []
                            | Resolved txt \<Rightarrow> Inr (take 50000 txt))
              else Inr [])"
  by (simp add: fetchUrlContent_def fetchUrlContent_try_def split: outcome.splits)

text \<open>
  C4. \<^verbatim>\<open>fetchUrlContent\<close> always returns a string. Its first request goes to the
  raw-HTML proxy; when that answers with a status that is not OK, the second request
  goes to the markdown proxy; when both strategies fail, by a rejected request, a status
  that is not OK or a rejected read of the body, the result is the empty string. An
  exception of \<^verbatim>\<open>encodeURIComponent\<close> is caught in the same way, before any request.
\<close>

theorem retrieval_never_raises:
  "(\<exists>s. fst (fetchUrlContent w url) = Inr s)
   \<and> (\<forall>enc. encodeURIComponent w url = Inr enc \<longrightarrow>
         take 1 (snd (fetchUrlContent w url)) = [Fetch (proxy_url enc)]
         \<and> ((\<exists>r. fetch w (proxy_url enc) = Resolved r \<and> \<not> ok r) \<longrightarrow>
              snd (fetchUrlContent w url) = [Fetch (proxy_url enc), Fetch (jina_url url)])
         \<and> (strategy_failed (fetch w (proxy_url enc)) \<and> strategy_failed (fetch w (jina_url url)) \<longrightarrow>
              fst (fetchUrlContent w url) = Inr []))
   \<and> (\<forall>e. encodeURIComponent w url = Inl e \<longrightarrow> fetchUrlContent w url = (Inr [], []))"
proof -
  have returns: "\<exists>s. fst (fetchUrlContent w url) = Inr s"
    using fetchUrlContent_returns [of w url] by auto
  have chain: "take 1 (snd (fetchUrlContent w url)) = [Fetch (proxy_url enc)]
         \<and> ((\<exists>r. fetch w (proxy_url enc) = Resolved r \<and> \<not> ok r) \<longrightarrow>
              snd (fetchUrlContent w url) = [Fetch (proxy_url enc), Fetch (jina_url url)])
         \<and> (strategy_failed (fetch w (proxy_url enc)) \<and> strategy_failed (fetch w (jina_url url)) \<longrightarrow>
              fst (fetchUrlContent w url) = Inr [])"
    if enc: "encodeURIComponent w url = Inr enc" for enc
  proof (cases "fetch w (proxy_url enc)")
    case (Rejected e)
    with fetchUrlContent_proxy_rejected [OF enc Rejected] show ?thesis by simp
  next
    case (Resolved r)
    show ?thesis
    proof (cases "ok r")
      case True
      with fetchUrlContent_proxy_ok [OF enc Resolved True] Resolved show ?thesis
        by (auto simp: strategy_failed_def split: outcome.splits)
    next
      case False
      with fetchUrlContent_fallback [OF enc Resolved False] Resolved show ?thesis
        by (auto simp: strategy_failed_def split: outcome.splits)
    qed
  qed
  from returns chain fetchUrlContent_uri_error show ?thesis by blast
qed

lemma demo_encoded:
  "uri_encode demo_url = Inr (ascii ''https%3A%2F%2Fexample.com%2Fr%2F1'')"
  by (simp add: demo_url_def ascii_def uri_unreserved_def is_alnum_def prepend_def percent_def
      hex_digit_def)

lemma demo_fetch_proxy:
  "fetch (demo_runtime a b g) (proxy_url (ascii ''https%3A%2F%2Fexample.com%2Fr%2F1'')) = a"
  by (simp add: demo_runtime_def proxy_url_def ascii_def)

lemma demo_fetch_jina: "fetch (demo_runtime a b g) (jina_url demo_url) = b"
  by (simp add: demo_runtime_def jina_url_def demo_url_def ascii_def)

lemma demo_encodeURIComponent:
  "encodeURIComponent (demo_runtime a b g) demo_url =
     Inr (ascii ''https%3A%2F%2Fexample.com%2Fr%2F1'')"
  by (simp add: demo_runtime_def demo_encoded)

theorem retrieval_never_raises_witness:
  "encodeURIComponent (demo_runtime page_not_ok (Rejected network_error) (Resolved None)) demo_url
     = Inr (ascii ''https%3A%2F%2Fexample.com%2Fr%2F1'')
   \<and> fetch (demo_runtime page_not_ok (Rejected network_error) (Resolved None))
        (proxy_url (ascii ''https%3A%2F%2Fexample.com%2Fr%2F1''))
       = Resolved \<lparr>ok = False, body_text = Resolved []\<rparr>
   \<and> strategy_failed (fetch (demo_runtime page_not_ok (Rejected network_error) (Resolved None))
        (proxy_url (ascii ''https%3A%2F%2Fexample.com%2Fr%2F1'')))
   \<and> strategy_failed (fetch (demo_runtime page_not_ok (Rejected network_error) (Resolved None))
        (jina_url demo_url))
   \<and> fetchUrlContent (demo_runtime page_not_ok (Rejected network_error) (Resolved None)) demo_url
       = (Inr [], [Fetch (proxy_url (ascii ''https%3A%2F%2Fexample.com%2Fr%2F1'')),
                   Fetch (jina_url demo_url)])"
proof -
  let ?w = "demo_runtime page_not_ok (Rejected network_error) (Resolved None)"
  let ?enc = "ascii ''https%3A%2F%2Fexample.com%2Fr%2F1''"
  have enc: "encodeURIComponent ?w demo_url = Inr ?enc"
    by (rule demo_encodeURIComponent)
  have a: "fetch ?w (proxy_url ?enc) = Resolved \<lparr>ok = False, body_text = Resolved []\<rparr>"
    by (simp add: demo_fetch_proxy page_not_ok_def)
  have fa: "strategy_failed (fetch ?w (proxy_url ?enc))"
    by (simp add: a strategy_failed_def)
  have fb: "strategy_failed (fetch ?w (jina_url demo_url))"
    by (simp add: demo_fetch_jina strategy_failed_def)
  from retrieval_never_raises [of ?w demo_url] enc a fa fb
  have "fst (fetchUrlContent ?w demo_url) = Inr []"
    and "snd (fetchUrlContent ?w demo_url) = [Fetch (proxy_url ?enc), Fetch (jina_url demo_url)]"
    by auto
  then have "fetchUrlContent ?w demo_url
      = (Inr [], [Fetch (proxy_url ?enc), Fetch (jina_url demo_url)])"
    by (simp add: prod_eq_iff)
  with enc a fa fb show ?thesis by simp
qed

text \<open>
  C10. When the request to the raw-HTML proxy is rejected, \<^verbatim>\<open>fetchUrlContent\<close> returns
  the empty string and that request is the only one made. The markdown proxy is
  requested exactly when the first request resolves with a status that is not OK.
\<close>

theorem proxy_exception_skips_fallback:
  "encodeURIComponent w url = Inr enc \<Longrightarrow>
     (\<forall>e. fetch w (proxy_url enc) = Rejected e \<longrightarrow>
        fetchUrlContent w url = (Inr [], [Fetch (proxy_url enc)]))
     \<and> (Fetch (jina_url url) \<in> set (snd (fetchUrlContent w url)) \<longleftrightarrow>
          (\<exists>r. fetch w (proxy_url enc) = Resolved r \<and> \<not> ok r))"
proof -
  assume enc: "encodeURIComponent w url = Inr enc"
  have "Fetch (jina_url url) \<in> set (snd (fetchUrlContent w url)) \<longleftrightarrow>
          (\<exists>r. fetch w (proxy_url enc) = Resolved r \<and> \<not> ok r)"
  proof (cases "fetch w (proxy_url enc)")
    case (Rejected e)
    with fetchUrlContent_proxy_rejected [OF enc Rejected] proxy_not_jina [of enc url]
    show ?thesis by auto
  next
    case (Resolved r)
    show ?thesis
    proof (cases "ok r")
      case True
      with fetchUrlContent_proxy_ok [OF enc Resolved True] Resolved
        proxy_not_jina [of enc url]
      show ?thesis by auto
    next
      case False
      with fetchUrlContent_fallback [OF enc Resolved False] Resolved show ?thesis by auto
    qed
  qed
  with fetchUrlContent_proxy_rejected [OF enc] show ?thesis by blast
qed

theorem proxy_exception_skips_fallback_witness:
  "encodeURIComponent (demo_runtime (Rejected network_error) (page_ok (ascii ''# Page'')) (Resolved None))
      demo_url = Inr (ascii ''https%3A%2F%2Fexample.com%2Fr%2F1'')
   \<and> fetch (demo_runtime (Rejected network_error) (page_ok (ascii ''# Page'')) (Resolved None))
        (proxy_url (ascii ''https%3A%2F%2Fexample.com%2Fr%2F1'')) = Rejected network_error
   \<and> fetchUrlContent (demo_runtime (Rejected network_error) (page_ok (ascii ''# Page'')) (Resolved None))
        demo_url = (Inr [], [Fetch (proxy_url (ascii ''https%3A%2F%2Fexample.com%2Fr%2F1''))])
   \<and> Fetch (jina_url demo_url) \<notin> set (snd (fetchUrlContent
        (demo_runtime (Rejected network_error) (page_ok (ascii ''# Page'')) (Resolved None)) demo_url))"
proof -
  let ?w = "demo_runtime (Rejected network_error) (page_ok (ascii ''# Page'')) (Resolved None)"
  let ?enc = "ascii ''https%3A%2F%2Fexample.com%2Fr%2F1''"
  have enc: "encodeURIComponent ?w demo_url = Inr ?enc"
    by (rule demo_encodeURIComponent)
  have a: "fetch ?w (proxy_url ?enc) = Rejected network_error"
    by (rule demo_fetch_proxy)
  from proxy_exception_skips_fallback [OF enc] a enc proxy_not_jina [of ?enc demo_url]
  show ?thesis by auto
qed


section \<open>The generative call\<close>

lemma analyzeUrl_sent:
  "snd (analyzeUrl w url) = calls @ [Generate req] \<Longrightarrow>
     fst (analyzeUrl w url) =
       (case analyze_response w (generateContent w req) of
          Inl e \<Rightarrow> Inl (rethrow e)
        | Inr v \<Rightarrow> Inr v)"
proof (cases "apiKey w")
  case None
  assume "snd (analyzeUrl w url) = calls @ [Generate req]"
  with None show ?thesis by (simp add: analyzeUrl_def)
next
  case (Some key)
  assume sent: "snd (analyzeUrl w url) = calls @ [Generate req]"
  obtain page fcalls where f: "fetchUrlContent w url = (Inr page, fcalls)"
    using fetchUrlContent_returns by blast
  from Some f sent show ?thesis by (simp add: analyzeUrl_def Let_def)
qed

lemma no_429_in_fixed_messages:
  "\<not> js_includes msg_empty_response (ascii ''429'')"
  "\<not> js_includes msg_malformed_json (ascii ''429'')"
  by (simp_all add: msg_empty_response_def msg_malformed_json_def ascii_def)

lemma fixed_messages_nonempty:
  "msg_empty_response \<noteq> []"
  "msg_malformed_json \<noteq> []"
  by (simp_all add: msg_empty_response_def msg_malformed_json_def)

lemma rethrow_fixed_messages:
  "rethrow (Error msg_empty_response) = Error msg_empty_response"
  "rethrow (Error msg_malformed_json) = Error msg_malformed_json"
  using no_429_in_fixed_messages fixed_messages_nonempty
  by (simp_all add: rethrow_def Error_def)

lemma extractJson_error:
  "extractJson parse str = Inl e \<Longrightarrow> e = Error msg_malformed_json"
  by (auto simp: extractJson_def split: option.splits)

text \<open>
  C1, as the code has it. When the generative call answers with a non-empty text, the
  value that \<^verbatim>\<open>extractJson\<close> parsed from it is returned to the caller as it is,
  whatever its shape: the cast to \<^verbatim>\<open>PosterData\<close> checks nothing at run time, no field
  is inspected, and there is no schema error. The only failure of this step is the
  parse failure.
\<close>

theorem parsed_value_returned_unchecked:
  "snd (analyzeUrl w url) = calls @ [Generate req] \<Longrightarrow>
   generateContent w req = Resolved (Some str) \<Longrightarrow> str \<noteq> [] \<Longrightarrow>
     (\<forall>v. extractJson (JSON_parse w) str = Inr v \<longrightarrow> fst (analyzeUrl w url) = Inr v)
     \<and> (\<forall>e. extractJson (JSON_parse w) str = Inl e \<longrightarrow>
          fst (analyzeUrl w url) = Inl (Error msg_malformed_json))"
proof -
  assume sent: "snd (analyzeUrl w url) = calls @ [Generate req]"
    and answer: "generateContent w req = Resolved (Some str)" and "str \<noteq> []"
  then have "fst (analyzeUrl w url) =
      (case extractJson (JSON_parse w) str of Inl e \<Rightarrow> Inl (rethrow e) | Inr v \<Rightarrow> Inr v)"
    by (simp add: analyzeUrl_sent analyze_response_def)
  then show ?thesis
    by (auto simp: rethrow_fixed_messages dest!: extractJson_error)
qed

lemma demo_apiKey: "apiKey (demo_runtime a b g) = Some (ascii ''secret'')"
  by (simp add: apiKey_def getEnvVar_def env_lookup_def demo_runtime_def ascii_def)

lemma demo_page_unreachable:
  "fetchUrlContent (demo_runtime (Rejected network_error) b g) demo_url =
     (Inr [], [Fetch (proxy_url (ascii ''https%3A%2F%2Fexample.com%2Fr%2F1''))])"
  using fetchUrlContent_proxy_rejected [OF demo_encodeURIComponent demo_fetch_proxy] .

lemma demo_sent:
  "snd (analyzeUrl (demo_runtime (Rejected network_error) b g) demo_url) =
     [Fetch (proxy_url (ascii ''https%3A%2F%2Fexample.com%2Fr%2F1''))] @ [Generate demo_request]"
  by (simp add: analyzeUrl_def demo_apiKey demo_page_unreachable demo_request_def Let_def)

lemma demo_generate: "generateContent (demo_runtime a b g) req = g"
  by (simp add: demo_runtime_def)

lemma demo_parse: "JSON_parse (demo_runtime a b g) = json_parse"
  by (simp add: demo_runtime_def)

lemma demo_mistyped_parse: "json_parse demo_mistyped = Some demo_mistyped_value"
  by code_simp

lemma demo_mistyped_match: "fence_match demo_mistyped = None"
  by (rule fence_match_no_backtick) (simp add: demo_mistyped_def ascii_def)

lemma demo_mistyped_extract: "extractJson json_parse demo_mistyped = Inr demo_mistyped_value"
  by (simp add: extractJson_def demo_mistyped_parse demo_mistyped_match)

lemma demo_mistyped_nonempty: "demo_mistyped \<noteq> []"
  by (simp add: demo_mistyped_def ascii_def)

lemma demo_mistyped_shape: "\<not> is_PosterData demo_mistyped_value"
  by code_simp

theorem parsed_value_returned_unchecked_witness:
  "snd (analyzeUrl (demo_runtime (Rejected network_error) page_not_ok (Resolved (Some demo_mistyped)))
          demo_url)
     = [Fetch (proxy_url (ascii ''https%3A%2F%2Fexample.com%2Fr%2F1''))] @ [Generate demo_request]
   \<and> generateContent (demo_runtime (Rejected network_error) page_not_ok (Resolved (Some demo_mistyped)))
        demo_request = Resolved (Some demo_mistyped)
   \<and> demo_mistyped \<noteq> []
   \<and> extractJson
        (JSON_parse (demo_runtime (Rejected network_error) page_not_ok (Resolved (Some demo_mistyped))))
        demo_mistyped = Inr demo_mistyped_value
   \<and> fst (analyzeUrl (demo_runtime (Rejected network_error) page_not_ok (Resolved (Some demo_mistyped)))
          demo_url) = Inr demo_mistyped_value"
  using parsed_value_returned_unchecked [OF demo_sent demo_generate demo_mistyped_nonempty]
  by (simp add: demo_sent demo_generate demo_mistyped_nonempty demo_parse demo_mistyped_extract)

text \<open>
  C1 as stated fails: the record of the specification's test with \<^verbatim>\<open>features\<close> as a
  string is not of the shape of \<^verbatim>\<open>PosterData\<close>, and it is returned to the caller.
\<close>

theorem mistyped_record_returned_counterexample:
  "fst (analyzeUrl (demo_runtime (Rejected network_error) page_not_ok (Resolved (Some demo_mistyped)))
          demo_url) = Inr demo_mistyped_value
   \<and> \<not> is_PosterData demo_mistyped_value"
proof -
  have "fst (analyzeUrl (demo_runtime (Rejected network_error) page_not_ok
               (Resolved (Some demo_mistyped))) demo_url) =
      (case analyze_response (demo_runtime (Rejected network_error) page_not_ok
               (Resolved (Some demo_mistyped))) (Resolved (Some demo_mistyped)) of
         Inl e \<Rightarrow> Inl (rethrow e) | Inr v \<Rightarrow> Inr v)"
    using analyzeUrl_sent [OF demo_sent] by (simp add: demo_generate)
  then show ?thesis
    by (simp add: analyze_response_def demo_mistyped_nonempty demo_parse demo_mistyped_extract
        demo_mistyped_shape)
qed

text \<open>
  C9, as the code has it. The \<^verbatim>\<open>catch\<close> block tests in this order: a status of 429 or
  a message containing \<^verbatim>\<open>429\<close> gives the rate-limit error; otherwise a status of 404
  gives the error of the unavailable model; otherwise the error keeps its message, or
  gets the generic one when it has none. A call that resolves without text gives the
  error of the empty response.
\<close>

theorem generate_failure_classified:
  "snd (analyzeUrl w url) = calls @ [Generate req] \<Longrightarrow>
     (generateContent w req = Rejected e \<and>
        (status e = Some 429 \<or> js_includes (message e) (ascii ''429'')) \<longrightarrow>
          fst (analyzeUrl w url) = Inl (Error msg_rate_limited))
     \<and> (generateContent w req = Rejected e \<and> status e = Some 404 \<and>
          \<not> js_includes (message e) (ascii ''429'') \<longrightarrow>
          fst (analyzeUrl w url) = Inl (Error msg_model_unavailable))
     \<and> (generateContent w req = Resolved None \<or> generateContent w req = Resolved (Some []) \<longrightarrow>
          fst (analyzeUrl w url) = Inl (Error msg_empty_response))
     \<and> (generateContent w req = Rejected e \<and> status e \<noteq> Some 429 \<and> status e \<noteq> Some 404 \<and>
          \<not> js_includes (message e) (ascii ''429'') \<longrightarrow>
          fst (analyzeUrl w url) =
            Inl (Error (if message e = [] then msg_generic_failure else message e)))"
proof -
  assume sent: "snd (analyzeUrl w url) = calls @ [Generate req]"
  have inc: "(message e \<noteq> [] \<and> js_includes (message e) (ascii ''429'')) \<longleftrightarrow>
      js_includes (message e) (ascii ''429'')"
    by (cases "message e") (simp_all add: ascii_def)
  have rejected: "generateContent w req = Rejected e \<Longrightarrow>
      fst (analyzeUrl w url) = Inl (rethrow e)"
    by (simp add: analyzeUrl_sent [OF sent] analyze_response_def)
  have empty: "generateContent w req = Resolved None \<or> generateContent w req = Resolved (Some [])
      \<Longrightarrow> fst (analyzeUrl w url) = Inl (Error msg_empty_response)"
    by (auto simp: analyzeUrl_sent [OF sent] analyze_response_def rethrow_fixed_messages)
  from rejected empty show ?thesis
    by (auto simp: rethrow_def inc)
qed

lemma messages_differ: "Error msg_rate_limited \<noteq> Error msg_model_unavailable"
  by (simp add: Error_def msg_rate_limited_def msg_model_unavailable_def)

text \<open>
  C9 as stated fails where its first two rules overlap: an error with status 404 whose
  message contains \<^verbatim>\<open>429\<close> gives the rate-limit error, not the one of the unavailable
  model.
\<close>

theorem status_404_message_429_counterexample:
  "fst (analyzeUrl
         (demo_runtime (Rejected network_error) page_not_ok
            (Rejected \<lparr>status = Some 404, message = ascii ''models/gemini-429 is not found''\<rparr>))
         demo_url) = Inl (Error msg_rate_limited)
   \<and> Error msg_rate_limited \<noteq> Error msg_model_unavailable"
proof -
  have "js_includes (ascii ''models/gemini-429 is not found'') (ascii ''429'')"
    and "ascii ''models/gemini-429 is not found'' \<noteq> []"
    by (simp_all add: ascii_def)
  then have "rethrow \<lparr>status = Some 404, message = ascii ''models/gemini-429 is not found''\<rparr>
      = Error msg_rate_limited"
    by (simp add: rethrow_def)
  then show ?thesis
    using analyzeUrl_sent [OF demo_sent] messages_differ
    by (simp add: demo_generate analyze_response_def)
qed

lemma demo_error_includes:
  "js_includes (ascii ''quota exceeded (429)'') (ascii ''429'')"
  "\<not> js_includes (ascii ''not found'') (ascii ''429'')"
  "\<not> js_includes (ascii ''Failed to fetch'') (ascii ''429'')"
  by (simp_all add: ascii_def)

theorem generate_failure_classified_witness:
  "fst (analyzeUrl (demo_runtime (Rejected network_error) page_not_ok
          (Rejected \<lparr>status = Some 429, message = ascii ''quota exceeded (429)''\<rparr>)) demo_url)
     = Inl (Error msg_rate_limited)
   \<and> fst (analyzeUrl (demo_runtime (Rejected network_error) page_not_ok
          (Rejected \<lparr>status = Some 404, message = ascii ''not found''\<rparr>)) demo_url)
     = Inl (Error msg_model_unavailable)
   \<and> fst (analyzeUrl (demo_runtime (Rejected network_error) page_not_ok (Resolved None)) demo_url)
     = Inl (Error msg_empty_response)
   \<and> fst (analyzeUrl (demo_runtime (Rejected network_error) page_not_ok
          (Rejected \<lparr>status = None, message = ascii ''Failed to fetch''\<rparr>)) demo_url)
     = Inl (Error (ascii ''Failed to fetch''))"
  using
    generate_failure_classified
      [OF demo_sent [of page_not_ok
            "Rejected \<lparr>status = Some 429, message = ascii ''quota exceeded (429)''\<rparr>"],
       where e = "\<lparr>status = Some 429, message = ascii ''quota exceeded (429)''\<rparr>"]
    generate_failure_classified
      [OF demo_sent [of page_not_ok
            "Rejected \<lparr>status = Some 404, message = ascii ''not found''\<rparr>"],
       where e = "\<lparr>status = Some 404, message = ascii ''not found''\<rparr>"]
    generate_failure_classified [OF demo_sent [of page_not_ok "Resolved None"]]
    generate_failure_classified
      [OF demo_sent [of page_not_ok
            "Rejected \<lparr>status = None, message = ascii ''Failed to fetch''\<rparr>"],
       where e = "\<lparr>status = None, message = ascii ''Failed to fetch''\<rparr>"]
  by (simp add: demo_generate demo_error_includes) (simp add: ascii_def)


section \<open>The title\<close>

subsection \<open>Trimming and substrings\<close>

lemma trim_decomp:
  "\<exists>w1 w2. s = w1 @ trim s @ w2 \<and> (\<forall>x\<in>set w1. is_ws x) \<and> (\<forall>x\<in>set w2. is_ws x)"
proof -
  let ?t = "dropWhile is_ws s"
  have 1: "s = takeWhile is_ws s @ ?t" by simp
  have "?t = rev (dropWhile is_ws (rev ?t)) @ rev (takeWhile is_ws (rev ?t))"
    by (metis takeWhile_dropWhile_id rev_append rev_rev_ident)
  then have 2: "?t = trim s @ rev (takeWhile is_ws (rev ?t))"
    by (simp only: trim_def)
  have "\<forall>x\<in>set (takeWhile is_ws s). is_ws x" by (meson set_takeWhileD)
  moreover have "\<forall>x\<in>set (rev (takeWhile is_ws (rev ?t))). is_ws x"
    by (auto dest: set_takeWhileD)
  ultimately show ?thesis using 1 2 by metis
qed

lemma trim_ends:
  "trim s \<noteq> [] \<Longrightarrow> \<not> is_ws (hd (trim s)) \<and> \<not> is_ws (last (trim s))"
proof -
  assume ne: "trim s \<noteq> []"
  let ?t = "dropWhile is_ws s"
  let ?u = "dropWhile is_ws (rev ?t)"
  from ne have u: "?u \<noteq> []" by (simp add: trim_def)
  then have "\<not> is_ws (hd ?u)" by (rule hd_dropWhile)
  then have l: "\<not> is_ws (last (trim s))" using u by (simp add: trim_def last_rev)
  have t: "?t \<noteq> []"
  proof
    assume "?t = []"
    with u show False by (metis dropWhile.simps(1) rev.simps(1))
  qed
  then have ht: "\<not> is_ws (hd ?t)" by (rule hd_dropWhile)
  have "rev ?t = takeWhile is_ws (rev ?t) @ ?u" by simp
  then have "?t = rev ?u @ rev (takeWhile is_ws (rev ?t))"
    by (metis rev_append rev_rev_ident)
  with u have "hd ?t = hd (rev ?u)" by (metis hd_append2 rev_is_Nil_conv)
  with ht have "\<not> is_ws (hd (trim s))" by (simp add: trim_def)
  with l show ?thesis by simp
qed

lemma trim_id: "s = [] \<or> (\<not> is_ws (hd s) \<and> \<not> is_ws (last s)) \<Longrightarrow> trim s = s"
proof (cases s)
  case Nil
  then show ?thesis by (simp add: trim_def)
next
  case (Cons a list)
  assume "s = [] \<or> (\<not> is_ws (hd s) \<and> \<not> is_ws (last s))"
  with Cons have h: "\<not> is_ws (hd s)" and l: "\<not> is_ws (last s)" by auto
  from Cons h have 1: "dropWhile is_ws s = s" by simp
  from Cons obtain y ys where r: "rev s = y # ys" by (cases "rev s") auto
  from Cons have "last s = hd (rev s)" by (simp add: hd_rev)
  with r l have "dropWhile is_ws (rev s) = rev s" by simp
  with 1 show ?thesis by (simp add: trim_def)
qed

lemma trim_idem: "trim (trim s) = trim s"
  using trim_ends [of s] by (intro trim_id) blast

lemma trim_frame:
  "t \<noteq> [] \<Longrightarrow> \<not> is_ws (hd t) \<Longrightarrow> \<not> is_ws (last t) \<Longrightarrow>
   \<forall>x\<in>set w1. is_ws x \<Longrightarrow> \<forall>x\<in>set w2. is_ws x \<Longrightarrow> trim (w1 @ t @ w2) = t"
proof -
  assume t: "t \<noteq> []" and h: "\<not> is_ws (hd t)" and l: "\<not> is_ws (last t)"
    and w1: "\<forall>x\<in>set w1. is_ws x" and w2: "\<forall>x\<in>set w2. is_ws x"
  from t h w1 have 1: "dropWhile is_ws (w1 @ t @ w2) = t @ w2"
    by (cases t) (simp_all add: dropWhile_append3)
  from t l w2 have 2: "dropWhile is_ws (rev w2 @ rev t) = rev t"
    by (cases "rev t") (auto simp: dropWhile_append3 last_rev)
  from 1 2 show ?thesis by (simp add: trim_def)
qed

lemma js_includes_iff: "js_includes s n \<longleftrightarrow> (\<exists>pre post. s = pre @ n @ post)"
proof (induction s)
  case Nil
  then show ?case by auto
next
  case (Cons c cs)
  show ?case
  proof
    assume "js_includes (c # cs) n"
    then consider "prefix n (c # cs)" | "js_includes cs n" by auto
    then show "\<exists>pre post. c # cs = pre @ n @ post"
    proof cases
      case 1
      then obtain post where "c # cs = [] @ n @ post" by (auto simp: prefix_def)
      then show ?thesis by blast
    next
      case 2
      with Cons obtain pre post where "cs = pre @ n @ post" by blast
      then have "c # cs = (c # pre) @ n @ post" by simp
      then show ?thesis by blast
    qed
  next
    assume "\<exists>pre post. c # cs = pre @ n @ post"
    then obtain pre post where e: "c # cs = pre @ n @ post" by blast
    show "js_includes (c # cs) n"
    proof (cases pre)
      case Nil
      with e have "prefix n (c # cs)" by (simp add: prefix_def)
      then show ?thesis by simp
    next
      case (Cons p ps)
      with e have "cs = ps @ n @ post" by simp
      with Cons.IH show ?thesis by auto
    qed
  qed
qed

lemma js_includes_trim: "js_includes (trim s) n \<Longrightarrow> js_includes s n"
proof -
  assume "js_includes (trim s) n"
  then obtain pre post where t: "trim s = pre @ n @ post" by (auto simp: js_includes_iff)
  obtain w1 w2 where "s = w1 @ trim s @ w2" using trim_decomp by blast
  with t have "s = (w1 @ pre) @ n @ (post @ w2)" by simp
  then show ?thesis unfolding js_includes_iff by blast
qed

lemma set_trim: "set (trim s) \<subseteq> set s"
proof -
  obtain w1 w2 where "s = w1 @ trim s @ w2" using trim_decomp by blast
  then have "set s = set w1 \<union> set (trim s) \<union> set w2" by (metis set_append Un_assoc)
  then show ?thesis by blast
qed

subsection \<open>The middle-dot pattern\<close>

lemma dot_sep_None: "middle_dot \<notin> set s \<Longrightarrow> dot_sep grp s = None"
proof -
  assume free: "middle_dot \<notin> set s"
  have "(case drop k s of [] \<Rightarrow> None
         | c # r \<Rightarrow> if c = middle_dot
                    then (case dot_tail r of None \<Rightarrow> None | Some g2 \<Rightarrow> Some (grp, g2))
                    else None) = None" for k
  proof (cases "drop k s")
    case Nil
    then show ?thesis by simp
  next
    case (Cons c r)
    then have "c \<in> set s" by (metis in_set_dropD list.set_intros(1))
    with free Cons show ?thesis by auto
  qed
  then show ?thesis by (simp add: dot_sep_def first_some_None_iff)
qed

lemma dot_lead_None: "middle_dot \<notin> set s \<Longrightarrow> dot_lead s = None"
proof -
  assume free: "middle_dot \<notin> set s"
  have "middle_dot \<notin> set (drop n (drop k s))" for n k
    using free by (meson in_set_dropD)
  then show ?thesis
    by (simp add: dot_lead_def first_some_None_iff dot_sep_None)
qed

lemma dot_at_None: "middle_dot \<notin> set s \<Longrightarrow> dot_at s = None"
proof -
  assume free: "middle_dot \<notin> set s"
  have "\<forall>t\<in>set (optional left_bracket s). middle_dot \<notin> set t"
    using free by (cases s) (auto simp: optional_def)
  then show ?thesis by (simp add: dot_at_def first_some_None_iff dot_lead_None)
qed

lemma matchDot_None: "middle_dot \<notin> set raw \<Longrightarrow> matchDot raw = None"
proof -
  assume free: "middle_dot \<notin> set raw"
  have "\<forall>t\<in>set (starts raw). middle_dot \<notin> set t"
    using free by (auto simp: set_starts dest: in_set_dropD)
  then show ?thesis by (simp add: matchDot_def first_some_None_iff dot_at_None)
qed

lemma first_some_append:
  "first_some f (xs @ ys) = (case first_some f xs of Some y \<Rightarrow> Some y | None \<Rightarrow> first_some f ys)"
  by (induction xs) (auto split: option.splits)

lemma first_some_greedy_from:
  "m \<le> length (takeWhile P s) \<Longrightarrow> f (length (takeWhile P s)) = Some y \<Longrightarrow>
     first_some f (greedy_from m P s) = Some y"
  by (simp add: greedy_from_def)

lemma first_some_greedy:
  "f (length (takeWhile P s)) = Some y \<Longrightarrow> first_some f (greedy P s) = Some y"
  by (simp add: greedy_def)

lemma first_some_lazy:
  assumes "m \<le> n" and "n \<le> length (takeWhile P s)" and "f n = Some y"
    and "\<forall>j. m \<le> j \<and> j < n \<longrightarrow> f j = None"
  shows "first_some f (lazy_from m P s) = Some y"
proof -
  let ?r = "length (takeWhile P s)"
  define k where "k = Suc ?r - n"
  with assms(2) have k: "Suc ?r = n + k" by simp
  have "[m..<n + k] = [m..<n] @ [n..<n + k]"
    using assms(1) by (rule upt_add_eq_append)
  with k have "[m..<Suc ?r] = [m..<n] @ [n..<Suc ?r]" by simp
  also have "[n..<Suc ?r] = n # [Suc n..<Suc ?r]"
    using assms(2) by (simp add: upt_conv_Cons)
  finally have l: "lazy_from m P s = [m..<n] @ n # [Suc n..<Suc ?r]"
    by (simp add: lazy_from_def)
  have "first_some f [m..<n] = None"
    using assms(4) by (simp add: first_some_None_iff)
  with l assms(3) show ?thesis by (simp add: first_some_append)
qed

lemma run_length:
  "\<forall>x\<in>set w. P x \<Longrightarrow> t = [] \<or> \<not> P (hd t) \<Longrightarrow> length (takeWhile P (w @ t)) = length w"
proof (cases t)
  case Nil
  assume "\<forall>x\<in>set w. P x"
  then have "takeWhile P w = w" by (simp add: takeWhile_eq_all_conv)
  with Nil show ?thesis by (metis append_Nil2)
next
  case (Cons a list)
  assume "\<forall>x\<in>set w. P x" and "t = [] \<or> \<not> P (hd t)"
  with Cons show ?thesis by simp
qed

lemma run_ge: "\<forall>x\<in>set w. P x \<Longrightarrow> length w \<le> length (takeWhile P (w @ t))"
  by simp

lemma run_less:
  "r \<noteq> [] \<Longrightarrow> \<not> P (last r) \<Longrightarrow> length (takeWhile P (r @ t)) < length r"
proof -
  assume r: "r \<noteq> []" and l: "\<not> P (last r)"
  then have mem: "last r \<in> set r" by simp
  have 1: "takeWhile P (r @ t) = takeWhile P r" using mem l by (rule takeWhile_append1)
  have "length (takeWhile P r) + length (dropWhile P r) = length r"
    by (metis length_append takeWhile_dropWhile_id)
  moreover have "dropWhile P r \<noteq> []"
    using mem l by (auto simp: dropWhile_eq_Nil_conv)
  ultimately have "length (takeWhile P r) < length r"
    by (cases "dropWhile P r") auto
  with 1 show ?thesis by simp
qed

lemma starts_first: "f s = Some y \<Longrightarrow> first_some f (starts s) = Some y"
  by (simp add: starts_def upt_rec)

lemma not_ws_chars:
  "\<not> is_ws middle_dot" "\<not> is_ws right_bracket" "\<not> is_ws left_bracket" "\<not> is_ws hyphen"
  "\<not> alnum_or_ws hyphen"
  by (simp_all add: is_ws_def middle_dot_def right_bracket_def left_bracket_def hyphen_def
      alnum_or_ws_def is_alnum_def)

lemma dot_end_done:
  assumes "\<forall>x\<in>set w4. is_ws x" and "tail = [] \<or> tail = [right_bracket]"
  shows "dot_end grp (w4 @ tail) = Some grp"
proof -
  have run: "length (takeWhile is_ws (w4 @ tail)) = length w4"
    using assms by (intro run_length) (auto simp: not_ws_chars)
  have d: "drop (length (takeWhile is_ws (w4 @ tail))) (w4 @ tail) = tail"
    by (simp add: run)
  have "first_some (\<lambda>r. if r = [] then Some grp else None) (optional right_bracket tail)
          = Some grp"
    using assms(2) by (auto simp: optional_def)
  then show ?thesis
    unfolding dot_end_def
    by (intro first_some_greedy) (simp only: d)
qed

lemma dot_end_None:
  assumes "r \<noteq> []" and "\<not> is_ws (last r)" and "rest = [] \<longrightarrow> last r \<noteq> right_bracket"
  shows "dot_end grp (r @ rest) = None"
proof -
  have "first_some (\<lambda>t. if t = [] then Some grp else None)
          (optional right_bracket (drop k (r @ rest))) = None"
    if k: "k \<le> length (takeWhile is_ws (r @ rest))" for k
  proof -
    from k run_less [where P = is_ws, OF assms(1,2)] have kr: "k < length r"
      by (meson le_less_trans)
    let ?q = "drop k r"
    from kr have lq: "last ?q = last r" by simp
    from kr have d: "drop k (r @ rest) = ?q @ rest" by simp
    from kr obtain x xs where x: "?q = x # xs" by (cases ?q) auto
    have "xs @ rest \<noteq> [] \<or> x \<noteq> right_bracket"
    proof (cases "xs = [] \<and> rest = []")
      case True
      with x lq assms(3) show ?thesis by auto
    next
      case False
      then show ?thesis by auto
    qed
    with x d show ?thesis by (auto simp: optional_def)
  qed
  then show ?thesis by (simp add: dot_end_def first_some_None_iff set_greedy)
qed

lemma dot_tail_found:
  assumes w3: "\<forall>x\<in>set w3. is_ws x"
    and Y: "Y \<noteq> []" "\<not> is_ws (hd Y)" "\<not> is_ws (last Y)" "\<forall>x\<in>set Y. not_line_terminator x"
    and w4: "\<forall>x\<in>set w4. is_ws x"
    and tail: "tail = [] \<or> tail = [right_bracket]"
    and last: "w4 @ tail = [] \<longrightarrow> last Y \<noteq> right_bracket"
  shows "dot_tail (w3 @ Y @ w4 @ tail) = Some Y"
proof -
  let ?rest = "w4 @ tail"
  let ?s = "w3 @ Y @ ?rest"
  have run: "length (takeWhile is_ws ?s) = length w3"
    using w3 Y(1,2) by (intro run_length) auto
  have inner: "first_some (\<lambda>n. dot_end (take n (Y @ ?rest)) (drop n (Y @ ?rest)))
                 (lazy_from 1 not_line_terminator (Y @ ?rest)) = Some Y"
  proof (rule first_some_lazy [where n = "length Y"])
    show "1 \<le> length Y" using Y(1) by (simp add: Suc_leI)
    show "length Y \<le> length (takeWhile not_line_terminator (Y @ ?rest))"
      using Y(4) by (rule run_ge)
    show "dot_end (take (length Y) (Y @ ?rest)) (drop (length Y) (Y @ ?rest)) = Some Y"
      using dot_end_done [OF w4 tail] by simp
    show "\<forall>j. 1 \<le> j \<and> j < length Y \<longrightarrow>
            dot_end (take j (Y @ ?rest)) (drop j (Y @ ?rest)) = None"
    proof (intro allI impI)
      fix j assume j: "1 \<le> j \<and> j < length Y"
      then have "drop j (Y @ ?rest) = drop j Y @ ?rest" by simp
      moreover have "dot_end (take j (Y @ ?rest)) (drop j Y @ ?rest) = None"
        using j Y(3) last by (intro dot_end_None) auto
      ultimately show "dot_end (take j (Y @ ?rest)) (drop j (Y @ ?rest)) = None" by simp
    qed
  qed
  have d: "drop (length (takeWhile is_ws ?s)) ?s = Y @ ?rest"
    by (simp add: run)
  show ?thesis
    unfolding dot_tail_def
    by (rule first_some_greedy) (simp only: d inner)
qed

lemma dot_sep_found:
  assumes "\<forall>x\<in>set w2. is_ws x" and "dot_tail s4 = Some g2"
  shows "dot_sep grp (w2 @ middle_dot # s4) = Some (grp, g2)"
proof -
  have run: "length (takeWhile is_ws (w2 @ middle_dot # s4)) = length w2"
    using assms(1) by (intro run_length) (auto simp: not_ws_chars)
  show ?thesis
    unfolding dot_sep_def
    by (rule first_some_greedy) (simp add: run assms(2))
qed

lemma dot_sep_early:
  assumes "r \<noteq> []" and "\<not> is_ws (last r)" and "middle_dot \<notin> set r"
  shows "dot_sep grp (r @ rest) = None"
proof -
  have "(case drop k (r @ rest) of [] \<Rightarrow> None
         | c # t \<Rightarrow> if c = middle_dot
                    then (case dot_tail t of None \<Rightarrow> None | Some g2 \<Rightarrow> Some (grp, g2))
                    else None) = None"
    if k: "k \<le> length (takeWhile is_ws (r @ rest))" for k
  proof -
    from k run_less [where P = is_ws, OF assms(1,2)] have kr: "k < length r" by (meson le_less_trans)
    then obtain x xs where x: "drop k r = x # xs" by (cases "drop k r") auto
    then have "x \<in> set r" by (metis in_set_dropD list.set_intros(1))
    with assms(3) have "x \<noteq> middle_dot" by auto
    with x kr show ?thesis by simp
  qed
  then show ?thesis by (simp add: dot_sep_def first_some_None_iff set_greedy)
qed

lemma dot_lead_found:
  assumes w1: "\<forall>x\<in>set w1. is_ws x"
    and X: "X \<noteq> []" "\<not> is_ws (hd X)" "\<not> is_ws (last X)" "\<forall>x\<in>set X. not_line_terminator x"
      "middle_dot \<notin> set X"
    and rest: "dot_sep X rest = Some res"
  shows "dot_lead (w1 @ X @ rest) = Some res"
proof -
  have run: "length (takeWhile is_ws (w1 @ X @ rest)) = length w1"
    using w1 X(1,2) by (intro run_length) auto
  have inner: "first_some (\<lambda>n. dot_sep (take n (X @ rest)) (drop n (X @ rest)))
                 (lazy_from 1 not_line_terminator (X @ rest)) = Some res"
  proof (rule first_some_lazy [where n = "length X"])
    show "1 \<le> length X" using X(1) by (simp add: Suc_leI)
    show "length X \<le> length (takeWhile not_line_terminator (X @ rest))"
      using X(4) by (rule run_ge)
    show "dot_sep (take (length X) (X @ rest)) (drop (length X) (X @ rest)) = Some res"
      using rest by simp
    show "\<forall>j. 1 \<le> j \<and> j < length X \<longrightarrow>
            dot_sep (take j (X @ rest)) (drop j (X @ rest)) = None"
    proof (intro allI impI)
      fix j assume j: "1 \<le> j \<and> j < length X"
      then have "drop j (X @ rest) = drop j X @ rest" by simp
      moreover have "dot_sep (take j (X @ rest)) (drop j X @ rest) = None"
        using j X(3,5) by (intro dot_sep_early) (auto dest: in_set_dropD)
      ultimately show "dot_sep (take j (X @ rest)) (drop j (X @ rest)) = None" by simp
    qed
  qed
  have d: "drop (length (takeWhile is_ws (w1 @ X @ rest))) (w1 @ X @ rest) = X @ rest"
    by (simp add: run)
  show ?thesis
    unfolding dot_lead_def
    by (rule first_some_greedy) (simp only: d inner)
qed

lemma matchDot_plain:
  assumes X: "X \<noteq> []" "\<not> is_ws (hd X)" "\<not> is_ws (last X)" "\<forall>x\<in>set X. not_line_terminator x"
      "middle_dot \<notin> set X" "hd X \<noteq> left_bracket"
    and w: "\<forall>x\<in>set w2. is_ws x" "\<forall>x\<in>set w3. is_ws x"
    and Y: "Y \<noteq> []" "\<not> is_ws (hd Y)" "\<not> is_ws (last Y)" "\<forall>x\<in>set Y. not_line_terminator x"
      "last Y \<noteq> right_bracket"
  shows "matchDot (X @ w2 @ middle_dot # w3 @ Y) = Some (X, Y)"
proof -
  have "dot_tail (w3 @ Y @ [] @ []) = Some Y"
    using w(2) Y by (intro dot_tail_found) auto
  then have "dot_sep X (w2 @ middle_dot # w3 @ Y) = Some (X, Y)"
    using w(1) by (simp add: dot_sep_found)
  then have "dot_lead ([] @ X @ w2 @ middle_dot # w3 @ Y) = Some (X, Y)"
    using X by (intro dot_lead_found) auto
  moreover have "optional left_bracket (X @ w2 @ middle_dot # w3 @ Y)
      = [X @ w2 @ middle_dot # w3 @ Y]"
    using X(1,6) by (cases X) (auto simp: optional_def)
  ultimately have "dot_at (X @ w2 @ middle_dot # w3 @ Y) = Some (X, Y)"
    by (simp add: dot_at_def)
  then show ?thesis unfolding matchDot_def by (rule starts_first)
qed

lemma matchDot_bracketed:
  assumes X: "X \<noteq> []" "\<not> is_ws (hd X)" "\<not> is_ws (last X)" "\<forall>x\<in>set X. not_line_terminator x"
      "middle_dot \<notin> set X"
    and w: "\<forall>x\<in>set w1. is_ws x" "\<forall>x\<in>set w2. is_ws x" "\<forall>x\<in>set w3. is_ws x" "\<forall>x\<in>set w4. is_ws x"
    and Y: "Y \<noteq> []" "\<not> is_ws (hd Y)" "\<not> is_ws (last Y)" "\<forall>x\<in>set Y. not_line_terminator x"
  shows "matchDot (left_bracket # w1 @ X @ w2 @ middle_dot # w3 @ Y @ w4 @ [right_bracket])
           = Some (X, Y)"
proof -
  let ?s1 = "w1 @ X @ w2 @ middle_dot # w3 @ Y @ w4 @ [right_bracket]"
  have "dot_tail (w3 @ Y @ w4 @ [right_bracket]) = Some Y"
    using w(3,4) Y by (intro dot_tail_found) auto
  then have "dot_sep X (w2 @ middle_dot # w3 @ Y @ w4 @ [right_bracket]) = Some (X, Y)"
    using w(2) by (simp add: dot_sep_found)
  then have "dot_lead ?s1 = Some (X, Y)"
    using X w(1) by (intro dot_lead_found) auto
  then have "dot_at (left_bracket # ?s1) = Some (X, Y)"
    by (simp add: dot_at_def optional_def)
  then show ?thesis unfolding matchDot_def by (rule starts_first)
qed

subsection \<open>The hyphen pattern\<close>

lemma hyphen_tail_found:
  assumes "\<forall>x\<in>set w. is_ws x" and "B \<noteq> []" and "\<not> is_ws (hd B)"
    and "\<forall>x\<in>set B. not_line_terminator x"
  shows "hyphen_tail (w @ B) = Some B"
proof -
  have run: "length (takeWhile is_ws (w @ B)) = length w"
    using assms(1,2,3) by (intro run_length) auto
  have d: "drop (length (takeWhile is_ws (w @ B))) (w @ B) = B"
    by (simp add: run)
  have runB: "length (takeWhile not_line_terminator B) = length B"
    using assms(4) by (metis takeWhile_eq_all_conv)
  have "first_some (\<lambda>n. if drop n B = [] then Some (take n B) else None)
          (greedy_from 1 not_line_terminator B) = Some B"
    using assms(2) by (intro first_some_greedy_from) (simp_all add: runB Suc_leI)
  then show ?thesis
    unfolding hyphen_tail_def
    by (intro first_some_greedy) (simp only: d)
qed

lemma hyphen_sep_found:
  "hyphen_tail s = Some g2 \<Longrightarrow> hyphen_sep grp (hyphen # s) = Some (grp, g2)"
  by (simp add: hyphen_sep_def greedy_def not_ws_chars)

lemma matchHyphen_found:
  assumes "a \<noteq> []" and "\<forall>x\<in>set a. alnum_or_ws x" and "hyphen_tail b = Some g2"
  shows "matchHyphen (a @ hyphen # b) = Some (a, g2)"
proof -
  have run: "length (takeWhile alnum_or_ws (a @ hyphen # b)) = length a"
    using assms(2) by (intro run_length) (auto simp: not_ws_chars)
  show ?thesis
    unfolding matchHyphen_def
    using assms(1,3)
    by (intro first_some_greedy_from) (simp_all add: run Suc_leI hyphen_sep_found)
qed

lemma set_greedy_from: "set (greedy_from m P s) = {k. m \<le> k \<and> k \<le> length (takeWhile P s)}"
  by (auto simp: greedy_from_def)

lemma matchHyphen_SomeD:
  assumes "matchHyphen raw = Some res"
  shows "takeWhile alnum_or_ws raw \<noteq> [] \<and> (\<exists>r. dropWhile alnum_or_ws raw = hyphen # r)"
proof -
  from assms obtain n where n: "1 \<le> n" "n \<le> length (takeWhile alnum_or_ws raw)"
    and sep: "hyphen_sep (take n raw) (drop n raw) = Some res"
    unfolding matchHyphen_def by (auto dest!: first_some_SomeD simp: set_greedy_from)
  from sep obtain k where k: "k \<le> length (takeWhile is_ws (drop n raw))"
    and c: "(case drop k (drop n raw) of [] \<Rightarrow> None
             | c # r \<Rightarrow> if c = hyphen
                        then (case hyphen_tail r of None \<Rightarrow> None
                              | Some g2 \<Rightarrow> Some (take n raw, g2))
                        else None) = Some res"
    unfolding hyphen_sep_def by (auto dest!: first_some_SomeD simp: set_greedy)
  from c obtain r where r: "drop k (drop n raw) = hyphen # r"
    by (cases "drop k (drop n raw)") (auto split: if_splits)
  let ?p = "take n raw @ take k (drop n raw)"
  have raw: "raw = ?p @ hyphen # r"
    using r by (metis append_take_drop_id append.assoc)
  have "\<forall>x\<in>set (take k (drop n raw)). is_ws x" using k by (rule take_run_all)
  moreover have "\<forall>x\<in>set (take n raw). alnum_or_ws x" using n(2) by (rule take_run_all)
  ultimately have all: "\<forall>x\<in>set ?p. alnum_or_ws x" by (auto simp: alnum_or_ws_def)
  from n have "take n raw \<noteq> []" by (cases raw) auto
  then have ne: "?p \<noteq> []" by simp
  have "takeWhile alnum_or_ws (?p @ hyphen # r) = ?p"
    using all by (simp add: not_ws_chars)
  moreover have "dropWhile alnum_or_ws (?p @ hyphen # r) = hyphen # r"
    using all by (simp add: not_ws_chars)
  ultimately show ?thesis using raw ne by metis
qed

subsection \<open>Splitting on the spaced hyphen\<close>

lemma split_scan_nonempty: "split_scan sep k acc s \<noteq> []"
  by (induction s arbitrary: k acc) (auto split: nat.splits)

lemma js_join_Cons: "ps \<noteq> [] \<Longrightarrow> js_join (p # ps) sep = p @ sep @ js_join ps sep"
  by (cases ps) auto

lemma join_split_scan:
  "sep \<noteq> [] \<Longrightarrow> js_join (split_scan sep k acc s) sep = rev acc @ drop k s"
proof (induction s arbitrary: k acc)
  case Nil
  then show ?case by simp
next
  case (Cons x xs)
  show ?case
  proof (cases k)
    case (Suc j)
    with Cons show ?thesis by simp
  next
    case 0
    show ?thesis
    proof (cases "prefix sep (x # xs)")
      case True
      then obtain post where post: "x # xs = sep @ post" by (auto simp: prefix_def)
      with Cons.prems have "xs = tl sep @ post" by (cases sep) auto
      then have d: "drop (length sep - 1) xs = post" by simp
      have "split_scan sep 0 acc (x # xs) = rev acc # split_scan sep (length sep - 1) [] xs"
        using True by simp
      then have "js_join (split_scan sep 0 acc (x # xs)) sep
          = rev acc @ sep @ js_join (split_scan sep (length sep - 1) [] xs) sep"
        by (simp add: js_join_Cons split_scan_nonempty)
      also have "\<dots> = rev acc @ sep @ post"
        using Cons.IH [OF Cons.prems, of "length sep - 1" "[]"] d by simp
      also have "\<dots> = rev acc @ drop 0 (x # xs)"
        by (simp only: post drop_0)
      finally show ?thesis using 0 by simp
    next
      case False
      with 0 Cons show ?thesis by simp
    qed
  qed
qed

lemma split_scan_skip:
  "length p = k \<Longrightarrow> split_scan sep k acc (p @ s) = split_scan sep 0 acc s"
  by (induction p arbitrary: k) auto

lemma split_scan_first:
  assumes "sep \<noteq> []" and "\<not> js_includes (a @ butlast sep) sep"
  shows "split_scan sep 0 acc (a @ sep @ b) = (rev acc @ a) # split_scan sep 0 [] b"
  using assms(2)
proof (induction a arbitrary: acc)
  case Nil
  from assms(1) obtain x xs where sep: "sep = x # xs" by (cases sep) auto
  have "split_scan sep (length xs) [] (xs @ b) = split_scan sep 0 [] b"
    by (rule split_scan_skip) simp
  with sep show ?case by simp
next
  case (Cons y ys)
  from Cons.prems have np: "\<not> prefix sep ((y # ys) @ butlast sep)"
    and ni: "\<not> js_includes (ys @ butlast sep) sep" by auto
  have "\<not> prefix sep (y # ys @ sep @ b)"
  proof
    assume "prefix sep (y # ys @ sep @ b)"
    moreover have "y # ys @ sep @ b = ((y # ys) @ butlast sep) @ ([last sep] @ b)"
      using assms(1) by (metis append.assoc append_Cons append_butlast_last_id)
    ultimately have "prefix sep (((y # ys) @ butlast sep) @ ([last sep] @ b))"
      by simp
    moreover have "length sep \<le> length ((y # ys) @ butlast sep)" by simp
    ultimately have "prefix sep ((y # ys) @ butlast sep)"
      by (metis prefix_length_prefix prefixI)
    with np show False by simp
  qed
  with Cons.IH [OF ni, of "y # acc"] show ?case by simp
qed

subsection \<open>The cascade\<close>

lemma has_separator_trim: "has_separator (trim s) \<Longrightarrow> has_separator s"
proof -
  assume h: "has_separator (trim s)"
  obtain w1 w2 where s: "s = w1 @ trim s @ w2" and w1: "\<forall>x\<in>set w1. is_ws x"
    using trim_decomp by blast
  from h consider "middle_dot \<in> set (trim s)" | "js_includes (trim s) (ascii '' - '')"
    | "takeWhile alnum_or_ws (trim s) \<noteq> [] \<and>
       (\<exists>r. dropWhile alnum_or_ws (trim s) = hyphen # r)"
    by (auto simp: has_separator_def split: list.splits)
  then show ?thesis
  proof cases
    case 1
    with set_trim show ?thesis by (auto simp: has_separator_def)
  next
    case 2
    then show ?thesis by (simp add: has_separator_def js_includes_trim)
  next
    case 3
    then obtain r where r: "dropWhile alnum_or_ws (trim s) = hyphen # r" by blast
    let ?p = "takeWhile alnum_or_ws (trim s)"
    have t: "trim s = ?p @ hyphen # r" using r by (metis takeWhile_dropWhile_id)
    have all: "\<forall>x\<in>set (w1 @ ?p). alnum_or_ws x"
      using w1 by (auto simp: alnum_or_ws_def dest: set_takeWhileD)
    from s t have "s = w1 @ (?p @ hyphen # r) @ w2" by metis
    then have s': "s = (w1 @ ?p) @ hyphen # (r @ w2)" by simp
    have "takeWhile alnum_or_ws ((w1 @ ?p) @ hyphen # (r @ w2)) = w1 @ ?p"
      using all by (simp add: not_ws_chars)
    moreover have "dropWhile alnum_or_ws ((w1 @ ?p) @ hyphen # (r @ w2)) = hyphen # (r @ w2)"
      using all by (simp add: not_ws_chars)
    ultimately have "takeWhile alnum_or_ws s \<noteq> [] \<and> dropWhile alnum_or_ws s = hyphen # (r @ w2)"
      using s' 3 by (metis append_is_Nil_conv)
    then show ?thesis by (simp add: has_separator_def)
  qed
qed

lemma splitTitle_plain:
  assumes "\<not> has_separator (trim name)"
  shows "splitTitle name = \<lparr>engName = [], cnName = trim name\<rparr>"
proof -
  from assms have 1: "matchDot (trim name) = None"
    by (simp add: has_separator_def matchDot_None)
  from assms have 2: "\<not> js_includes (trim name) (ascii '' - '')"
    by (simp add: has_separator_def)
  have 3: "matchHyphen (trim name) = None"
  proof (rule ccontr)
    assume "matchHyphen (trim name) \<noteq> None"
    then obtain res where "matchHyphen (trim name) = Some res" by blast
    from matchHyphen_SomeD [OF this] assms show False
      by (auto simp: has_separator_def)
  qed
  from 1 2 3 show ?thesis by (simp add: splitTitle_def)
qed

lemma trimmed_parts:
  assumes "trim X \<noteq> []"
  obtains w1 w2 where "X = w1 @ trim X @ w2" "\<forall>x\<in>set w1. is_ws x" "\<forall>x\<in>set w2. is_ws x"
    "\<not> is_ws (hd (trim X))" "\<not> is_ws (last (trim X))"
  using trim_decomp [of X] trim_ends [OF assms] by blast

lemma splitTitle_dot_plain:
  assumes "middle_dot \<notin> set X" "trim X \<noteq> []" "trim Y \<noteq> []"
    "list_all not_line_terminator (trim X)" "list_all not_line_terminator (trim Y)"
    "hd (trim X) \<noteq> left_bracket" "last (trim Y) \<noteq> right_bracket"
  shows "splitTitle (X @ [middle_dot] @ Y) = \<lparr>engName = trim X, cnName = trim Y\<rparr>"
proof -
  from assms(2) obtain w1 w2 where X: "X = w1 @ trim X @ w2" "\<forall>x\<in>set w1. is_ws x"
    "\<forall>x\<in>set w2. is_ws x" "\<not> is_ws (hd (trim X))" "\<not> is_ws (last (trim X))"
    by (rule trimmed_parts)
  from assms(3) obtain w3 w4 where Y: "Y = w3 @ trim Y @ w4" "\<forall>x\<in>set w3. is_ws x"
    "\<forall>x\<in>set w4. is_ws x" "\<not> is_ws (hd (trim Y))" "\<not> is_ws (last (trim Y))"
    by (rule trimmed_parts)
  let ?raw = "trim X @ w2 @ middle_dot # w3 @ trim Y"
  have e: "X @ [middle_dot] @ Y = w1 @ ?raw @ w4"
    using X(1) Y(1) by (metis append.assoc append_Cons append_Nil)
  have "trim (w1 @ ?raw @ w4) = ?raw"
    using X(2,4) Y(3,5) assms(2,3) by (intro trim_frame) auto
  then have raw: "trim (X @ [middle_dot] @ Y) = ?raw" by (simp only: e)
  have "middle_dot \<notin> set (trim X)" using assms(1) set_trim by blast
  then have "matchDot ?raw = Some (trim X, trim Y)"
    using assms X(3,4,5) Y(2,4,5) by (intro matchDot_plain) (auto simp: list_all_iff)
  with raw show ?thesis by (simp add: splitTitle_def trim_idem)
qed

lemma splitTitle_dot_bracketed:
  assumes "middle_dot \<notin> set X" "trim X \<noteq> []" "trim Y \<noteq> []"
    "list_all not_line_terminator (trim X)" "list_all not_line_terminator (trim Y)"
    "list_all is_ws o1" "list_all is_ws o2"
  shows "splitTitle (o1 @ [left_bracket] @ X @ [middle_dot] @ Y @ [right_bracket] @ o2)
           = \<lparr>engName = trim X, cnName = trim Y\<rparr>"
proof -
  from assms(2) obtain w1 w2 where X: "X = w1 @ trim X @ w2" "\<forall>x\<in>set w1. is_ws x"
    "\<forall>x\<in>set w2. is_ws x" "\<not> is_ws (hd (trim X))" "\<not> is_ws (last (trim X))"
    by (rule trimmed_parts)
  from assms(3) obtain w3 w4 where Y: "Y = w3 @ trim Y @ w4" "\<forall>x\<in>set w3. is_ws x"
    "\<forall>x\<in>set w4. is_ws x" "\<not> is_ws (hd (trim Y))" "\<not> is_ws (last (trim Y))"
    by (rule trimmed_parts)
  let ?raw = "left_bracket # w1 @ trim X @ w2 @ middle_dot # w3 @ trim Y @ w4 @ [right_bracket]"
  have "[left_bracket] @ X @ [middle_dot] @ Y @ [right_bracket] = ?raw"
    using X(1) Y(1) by (metis append.assoc append_Cons append_Nil)
  then have e:
    "o1 @ [left_bracket] @ X @ [middle_dot] @ Y @ [right_bracket] @ o2 = o1 @ ?raw @ o2"
    by (metis append.assoc)
  have "trim (o1 @ ?raw @ o2) = ?raw"
    using assms(6,7) by (intro trim_frame) (auto simp: list_all_iff not_ws_chars)
  then have raw:
    "trim (o1 @ [left_bracket] @ X @ [middle_dot] @ Y @ [right_bracket] @ o2) = ?raw"
    by (simp only: e)
  have "middle_dot \<notin> set (trim X)" using assms(1) set_trim by blast
  then have "matchDot ?raw = Some (trim X, trim Y)"
    using assms X(2,3,4,5) Y(2,3,4,5) by (intro matchDot_bracketed) (auto simp: list_all_iff)
  with raw show ?thesis by (simp add: splitTitle_def trim_idem)
qed

lemma splitTitle_spaced_hyphen:
  assumes "matchDot (trim name) = None" "trim name = a @ ascii '' - '' @ b"
    "\<not> js_includes (a @ ascii '' -'') (ascii '' - '')"
  shows "splitTitle name = \<lparr>engName = trim a, cnName = trim b\<rparr>"
proof -
  let ?sep = "ascii '' - ''"
  have sep: "?sep \<noteq> []" "butlast ?sep = ascii '' -''" by (simp_all add: ascii_def)
  have inc: "js_includes (trim name) ?sep"
    unfolding js_includes_iff using assms(2) by blast
  have "js_split (trim name) ?sep = a # js_split b ?sep"
    unfolding js_split_def assms(2)
    using split_scan_first [OF sep(1), of a "[]" b] assms(3) sep(2) by simp
  moreover have "js_join (js_split b ?sep) ?sep = b"
    unfolding js_split_def using join_split_scan [OF sep(1), of 0 "[]" b] by simp
  ultimately show ?thesis
    using assms(1) inc by (simp add: splitTitle_def Let_def)
qed

lemma splitTitle_bare_hyphen:
  assumes "matchDot (trim name) = None" "\<not> js_includes (trim name) (ascii '' - '')"
    "trim name = a @ [hyphen] @ b" "a \<noteq> []" "list_all alnum_or_ws a" "trim b \<noteq> []"
    "list_all not_line_terminator (trim b)"
  shows "splitTitle name = \<lparr>engName = trim a, cnName = trim b\<rparr>"
proof -
  from assms(6) obtain w1 w2 where b: "b = w1 @ trim b @ w2" "\<forall>x\<in>set w1. is_ws x"
    "\<forall>x\<in>set w2. is_ws x" "\<not> is_ws (hd (trim b))" "\<not> is_ws (last (trim b))"
    by (rule trimmed_parts)
  have "w2 = []"
  proof (rule ccontr)
    assume ne: "w2 \<noteq> []"
    then have "last (trim name) = last w2" using assms(3) b(1)
      by (metis last_append last_appendR append_is_Nil_conv not_Cons_self2)
    moreover have "trim name \<noteq> []" using assms(3) by simp
    ultimately have "\<not> is_ws (last w2)" using trim_ends by metis
    with ne b(3) show False by (meson last_in_set)
  qed
  with b(1) have b': "b = w1 @ trim b" by simp
  have "hyphen_tail (w1 @ trim b) = Some (trim b)"
    using b(2,4) assms(6,7) by (intro hyphen_tail_found) (auto simp: list_all_iff)
  with b' have "hyphen_tail b = Some (trim b)" by simp
  then have "matchHyphen (a @ hyphen # b) = Some (a, trim b)"
    using assms(4,5) by (intro matchHyphen_found) (auto simp: list_all_iff)
  with assms(1,2,3) show ?thesis by (simp add: splitTitle_def trim_idem)
qed

lemma cnName_trimmed: "trim (cnName (splitTitle name)) = cnName (splitTitle name)"
  by (auto simp: splitTitle_def Let_def trim_idem split: option.splits prod.splits)

text \<open>
  C7, as the code has it. \<^verbatim>\<open>splitTitle\<close> is a total function: every step of it is
  defined on every string, the empty one included; the groups of a successful match are
  always present, and \<^verbatim>\<open>parts[0]\<close> is the first piece of a split, which always has
  one. A title without a recognised separator comes back with an empty \<^verbatim>\<open>engName\<close> and
  the trimmed title as \<^verbatim>\<open>cnName\<close>, and splitting that \<^verbatim>\<open>cnName\<close> again gives the same
  result. For any title, whenever the \<^verbatim>\<open>cnName\<close> of the result holds no recognised
  separator, splitting it again returns it unchanged with an empty \<^verbatim>\<open>engName\<close>.
\<close>

theorem split_without_separator:
  "js_split (trim name) (ascii '' - '') \<noteq> []
   \<and> (\<not> has_separator name \<longrightarrow>
      splitTitle name = \<lparr>engName = [], cnName = trim name\<rparr>
      \<and> splitTitle (cnName (splitTitle name)) = splitTitle name)
   \<and> (\<not> has_separator (cnName (splitTitle name)) \<longrightarrow>
      splitTitle (cnName (splitTitle name))
        = \<lparr>engName = [], cnName = cnName (splitTitle name)\<rparr>)"
proof (intro conjI impI)
  show "js_split (trim name) (ascii '' - '') \<noteq> []"
    unfolding js_split_def by (rule split_scan_nonempty)
next
  assume "\<not> has_separator name"
  then have t: "\<not> has_separator (trim name)" using has_separator_trim by blast
  then show 1: "splitTitle name = \<lparr>engName = [], cnName = trim name\<rparr>"
    by (rule splitTitle_plain)
  from t have "\<not> has_separator (trim (trim name))" by (simp add: trim_idem)
  then have "splitTitle (trim name) = \<lparr>engName = [], cnName = trim (trim name)\<rparr>"
    by (rule splitTitle_plain)
  with 1 show "splitTitle (cnName (splitTitle name)) = splitTitle name"
    by (simp add: trim_idem)
next
  assume "\<not> has_separator (cnName (splitTitle name))"
  then have "\<not> has_separator (trim (cnName (splitTitle name)))"
    by (simp add: cnName_trimmed)
  then have "splitTitle (cnName (splitTitle name))
      = \<lparr>engName = [], cnName = trim (cnName (splitTitle name))\<rparr>"
    by (rule splitTitle_plain)
  then show "splitTitle (cnName (splitTitle name))
      = \<lparr>engName = [], cnName = cnName (splitTitle name)\<rparr>"
    by (simp add: cnName_trimmed)
qed

lemma demo_no_separator:
  "\<not> has_separator [0x20, 0x4F60, 0x597D, 0x20]" "\<not> has_separator []"
  "\<not> has_separator (ascii ''Event'')"
  by (simp_all add: has_separator_def middle_dot_def hyphen_def ascii_def alnum_or_ws_def
      is_alnum_def is_ws_def)

lemma demo_trim: "trim [0x20, 0x4F60, 0x597D, 0x20] = [0x4F60, 0x597D]" "trim [] = []"
  by (simp_all add: trim_def is_ws_def)

lemma demo_two_parts:
  "splitTitle (ascii ''Raid Boss - Event'')
     = \<lparr>engName = ascii ''Raid Boss'', cnName = ascii ''Event''\<rparr>"
  by code_simp

theorem split_without_separator_witness:
  "js_split (trim (ascii ''A - B - C'')) (ascii '' - '') = [ascii ''A'', ascii ''B'', ascii ''C'']
   \<and> \<not> has_separator [0x20, 0x4F60, 0x597D, 0x20]
   \<and> splitTitle [0x20, 0x4F60, 0x597D, 0x20] = \<lparr>engName = [], cnName = [0x4F60, 0x597D]\<rparr>
   \<and> splitTitle [0x4F60, 0x597D] = \<lparr>engName = [], cnName = [0x4F60, 0x597D]\<rparr>
   \<and> \<not> has_separator []
   \<and> splitTitle [] = \<lparr>engName = [], cnName = []\<rparr>
   \<and> \<not> has_separator (cnName (splitTitle (ascii ''Raid Boss - Event'')))
   \<and> splitTitle (ascii ''Event'') = \<lparr>engName = [], cnName = ascii ''Event''\<rparr>"
proof -
  note rest = split_without_separator [THEN conjunct2]
  have s: "js_split (trim (ascii ''A - B - C'')) (ascii '' - '')
      = [ascii ''A'', ascii ''B'', ascii ''C'']"
    using split_without_separator [of "ascii ''A - B - C''", THEN conjunct1] by code_simp
  note t = rest [THEN conjunct1, rule_format, OF demo_no_separator(1)]
  from t [THEN conjunct1]
  have a: "splitTitle [0x20, 0x4F60, 0x597D, 0x20] = \<lparr>engName = [], cnName = [0x4F60, 0x597D]\<rparr>"
    by (simp add: demo_trim)
  from t [THEN conjunct2]
  have b: "splitTitle (cnName (splitTitle [0x20, 0x4F60, 0x597D, 0x20]))
              = splitTitle [0x20, 0x4F60, 0x597D, 0x20]" .
  from b have c: "splitTitle [0x4F60, 0x597D] = \<lparr>engName = [], cnName = [0x4F60, 0x597D]\<rparr>"
    by (simp add: a)
  from rest [THEN conjunct1, rule_format, OF demo_no_separator(2)]
  have d: "splitTitle [] = \<lparr>engName = [], cnName = []\<rparr>"
    by (simp add: demo_trim)
  have e: "\<not> has_separator (cnName (splitTitle (ascii ''Raid Boss - Event'')))"
    by (simp add: demo_two_parts demo_no_separator(3))
  from rest [THEN conjunct2, rule_format, OF e]
  have f: "splitTitle (ascii ''Event'') = \<lparr>engName = [], cnName = ascii ''Event''\<rparr>"
    by (simp add: demo_two_parts)
  from s a c d e f demo_no_separator show ?thesis by simp
qed

text \<open>
  C7 as stated fails on already-split names. The title \<^verbatim>\<open>A - B - C\<close> is split at its
  first \<^verbatim>\<open>" - "\<close> into \<^verbatim>\<open>A\<close> and \<^verbatim>\<open>B - C\<close>; that \<^verbatim>\<open>cnName\<close> still holds a separator,
  and splitting it again gives \<^verbatim>\<open>B\<close> and \<^verbatim>\<open>C\<close>. The title with two middle dots
  behaves in the same way.
\<close>

theorem resplit_changes_counterexample:
  "splitTitle (ascii ''A - B - C'') = \<lparr>engName = ascii ''A'', cnName = ascii ''B - C''\<rparr>
   \<and> splitTitle (ascii ''B - C'') = \<lparr>engName = ascii ''B'', cnName = ascii ''C''\<rparr>
   \<and> splitTitle (cnName (splitTitle (ascii ''A - B - C''))) \<noteq> splitTitle (ascii ''A - B - C'')
   \<and> cnName (splitTitle (cnName (splitTitle (ascii ''A - B - C''))))
       \<noteq> cnName (splitTitle (ascii ''A - B - C''))
   \<and> splitTitle [0x41, 0xB7, 0x42, 0xB7, 0x43] = \<lparr>engName = [0x41], cnName = [0x42, 0xB7, 0x43]\<rparr>
   \<and> splitTitle [0x42, 0xB7, 0x43] = \<lparr>engName = [0x42], cnName = [0x43]\<rparr>"
  by code_simp


text \<open>
  C6, as the code has it. The cascade works on the trimmed name, and the first rule
  that matches wins.
  \<^item> A title \<open>X \<cdot> Y\<close>, with or without the outer brackets, yields \<open>engName = X\<close> and
    \<open>cnName = Y\<close>, both trimmed, when \<open>X\<close> and \<open>Y\<close> are not blank, their trimmed texts
    hold no line terminator, and \<open>X\<close> holds no middle dot (the pattern is lazy: it
    splits at the first middle dot); without the outer brackets, moreover, \<open>X\<close> does not
    begin with the left bracket and \<open>Y\<close> does not end with the right one (the pattern
    takes either bracket alone as the optional outer one).
  \<^item> Else, a trimmed name containing \<^verbatim>\<open>" - "\<close> is split at the first occurrence: the text
    before it and the whole text behind it, both trimmed.
  \<^item> Else, a trimmed name that begins with a non-empty run of letters, digits and white
    space followed by a hyphen, with a remainder that is not blank and holds no line
    terminator, is split at that hyphen, both sides trimmed.
\<close>

theorem title_cascade:
  "(\<forall>X Y. middle_dot \<notin> set X \<and> trim X \<noteq> [] \<and> trim Y \<noteq> [] \<and>
          list_all not_line_terminator (trim X) \<and> list_all not_line_terminator (trim Y) \<and>
          hd (trim X) \<noteq> left_bracket \<and> last (trim Y) \<noteq> right_bracket \<longrightarrow>
      splitTitle (X @ [middle_dot] @ Y) = \<lparr>engName = trim X, cnName = trim Y\<rparr>)
   \<and> (\<forall>X Y o1 o2. middle_dot \<notin> set X \<and> trim X \<noteq> [] \<and> trim Y \<noteq> [] \<and>
          list_all not_line_terminator (trim X) \<and> list_all not_line_terminator (trim Y) \<and>
          list_all is_ws o1 \<and> list_all is_ws o2 \<longrightarrow>
      splitTitle (o1 @ [left_bracket] @ X @ [middle_dot] @ Y @ [right_bracket] @ o2)
        = \<lparr>engName = trim X, cnName = trim Y\<rparr>)
   \<and> (\<forall>name a b. matchDot (trim name) = None \<and> trim name = a @ ascii '' - '' @ b \<and>
          \<not> js_includes (a @ ascii '' -'') (ascii '' - '') \<longrightarrow>
      splitTitle name = \<lparr>engName = trim a, cnName = trim b\<rparr>)
   \<and> (\<forall>name a b. matchDot (trim name) = None \<and> \<not> js_includes (trim name) (ascii '' - '') \<and>
          trim name = a @ [hyphen] @ b \<and> a \<noteq> [] \<and> list_all alnum_or_ws a \<and>
          trim b \<noteq> [] \<and> list_all not_line_terminator (trim b) \<longrightarrow>
      splitTitle name = \<lparr>engName = trim a, cnName = trim b\<rparr>)"
proof (intro conjI allI impI)
  fix X Y
  assume "middle_dot \<notin> set X \<and> trim X \<noteq> [] \<and> trim Y \<noteq> [] \<and>
          list_all not_line_terminator (trim X) \<and> list_all not_line_terminator (trim Y) \<and>
          hd (trim X) \<noteq> left_bracket \<and> last (trim Y) \<noteq> right_bracket"
  then show "splitTitle (X @ [middle_dot] @ Y) = \<lparr>engName = trim X, cnName = trim Y\<rparr>"
    by (elim conjE) (rule splitTitle_dot_plain)
next
  fix X Y o1 o2
  assume "middle_dot \<notin> set X \<and> trim X \<noteq> [] \<and> trim Y \<noteq> [] \<and>
          list_all not_line_terminator (trim X) \<and> list_all not_line_terminator (trim Y) \<and>
          list_all is_ws o1 \<and> list_all is_ws o2"
  then show "splitTitle (o1 @ [left_bracket] @ X @ [middle_dot] @ Y @ [right_bracket] @ o2)
        = \<lparr>engName = trim X, cnName = trim Y\<rparr>"
    by (elim conjE) (rule splitTitle_dot_bracketed)
next
  fix name a b
  assume "matchDot (trim name) = None \<and> trim name = a @ ascii '' - '' @ b \<and>
          \<not> js_includes (a @ ascii '' -'') (ascii '' - '')"
  then show "splitTitle name = \<lparr>engName = trim a, cnName = trim b\<rparr>"
    by (elim conjE) (rule splitTitle_spaced_hyphen)
next
  fix name a b
  assume "matchDot (trim name) = None \<and> \<not> js_includes (trim name) (ascii '' - '') \<and>
          trim name = a @ [hyphen] @ b \<and> a \<noteq> [] \<and> list_all alnum_or_ws a \<and>
          trim b \<noteq> [] \<and> list_all not_line_terminator (trim b)"
  then show "splitTitle name = \<lparr>engName = trim a, cnName = trim b\<rparr>"
    by (elim conjE) (rule splitTitle_bare_hyphen)
qed

lemma demo_parts:
  "middle_dot \<notin> set (ascii ''Raid Boss '')"
  "trim (ascii ''Raid Boss '') = ascii ''Raid Boss''"
  "trim [0x20, 0x7A81, 0x88AD] = [0x7A81, 0x88AD]"
  "list_all not_line_terminator (ascii ''Raid Boss'')"
  "list_all not_line_terminator [0x7A81, 0x88AD]"
  by (simp_all add: ascii_def middle_dot_def trim_def is_ws_def not_line_terminator_def
      is_line_terminator_def)

lemma demo_spaced:
  "trim (ascii ''Raid Boss - Event - Mode'') = ascii ''Raid Boss'' @ ascii '' - '' @ ascii ''Event - Mode''"
  "matchDot (ascii ''Raid Boss'' @ ascii '' - '' @ ascii ''Event - Mode'') = None"
  "\<not> js_includes (ascii ''Raid Boss'' @ ascii '' -'') (ascii '' - '')"
  "trim (ascii ''Raid Boss'') = ascii ''Raid Boss''"
  "trim (ascii ''Event - Mode'') = ascii ''Event - Mode''"
  by (simp_all add: matchDot_None ascii_def middle_dot_def trim_def is_ws_def)

lemma demo_bare:
  "trim (ascii ''Loot2-Plus'') = ascii ''Loot2'' @ [hyphen] @ ascii ''Plus''"
  "matchDot (ascii ''Loot2'' @ [hyphen] @ ascii ''Plus'') = None"
  "\<not> js_includes (ascii ''Loot2'' @ [hyphen] @ ascii ''Plus'') (ascii '' - '')"
  "list_all alnum_or_ws (ascii ''Loot2'')"
  "trim (ascii ''Plus'') = ascii ''Plus''"
  "list_all not_line_terminator (ascii ''Plus'')"
  "trim (ascii ''Loot2'') = ascii ''Loot2''"
  by (simp_all add: matchDot_None ascii_def middle_dot_def hyphen_def trim_def is_ws_def
      alnum_or_ws_def is_alnum_def not_line_terminator_def is_line_terminator_def)

theorem title_cascade_witness:
  "splitTitle (ascii ''Raid Boss '' @ [middle_dot] @ [0x20, 0x7A81, 0x88AD])
     = \<lparr>engName = ascii ''Raid Boss'', cnName = [0x7A81, 0x88AD]\<rparr>
   \<and> splitTitle ([] @ [left_bracket] @ ascii ''Raid Boss '' @ [middle_dot] @ [0x20, 0x7A81, 0x88AD]
                   @ [right_bracket] @ [])
     = \<lparr>engName = ascii ''Raid Boss'', cnName = [0x7A81, 0x88AD]\<rparr>
   \<and> splitTitle (ascii ''Raid Boss - Event - Mode'')
     = \<lparr>engName = ascii ''Raid Boss'', cnName = ascii ''Event - Mode''\<rparr>
   \<and> splitTitle (ascii ''Loot2-Plus'') = \<lparr>engName = ascii ''Loot2'', cnName = ascii ''Plus''\<rparr>"
proof -
  let ?X = "ascii ''Raid Boss ''" and ?Y = "[0x20, 0x7A81, 0x88AD] :: jsstring"
  have h1: "middle_dot \<notin> set ?X \<and> trim ?X \<noteq> [] \<and> trim ?Y \<noteq> [] \<and>
          list_all not_line_terminator (trim ?X) \<and> list_all not_line_terminator (trim ?Y) \<and>
          hd (trim ?X) \<noteq> left_bracket \<and> last (trim ?Y) \<noteq> right_bracket"
    by (simp add: ascii_def middle_dot_def left_bracket_def right_bracket_def trim_def is_ws_def
        not_line_terminator_def is_line_terminator_def)
  have h2: "middle_dot \<notin> set ?X \<and> trim ?X \<noteq> [] \<and> trim ?Y \<noteq> [] \<and>
          list_all not_line_terminator (trim ?X) \<and> list_all not_line_terminator (trim ?Y) \<and>
          list_all is_ws [] \<and> list_all is_ws []"
    using h1 by simp
  have h3: "matchDot (trim (ascii ''Raid Boss - Event - Mode'')) = None \<and>
      trim (ascii ''Raid Boss - Event - Mode'')
        = ascii ''Raid Boss'' @ ascii '' - '' @ ascii ''Event - Mode'' \<and>
      \<not> js_includes (ascii ''Raid Boss'' @ ascii '' -'') (ascii '' - '')"
    by (simp only: demo_spaced simp_thms)
  have h4: "matchDot (trim (ascii ''Loot2-Plus'')) = None \<and>
      \<not> js_includes (trim (ascii ''Loot2-Plus'')) (ascii '' - '') \<and>
      trim (ascii ''Loot2-Plus'') = ascii ''Loot2'' @ [hyphen] @ ascii ''Plus'' \<and>
      ascii ''Loot2'' \<noteq> [] \<and> list_all alnum_or_ws (ascii ''Loot2'') \<and>
      trim (ascii ''Plus'') \<noteq> [] \<and> list_all not_line_terminator (trim (ascii ''Plus''))"
    by (simp only: demo_bare simp_thms) (simp add: ascii_def)
  from title_cascade [THEN conjunct1, rule_format, OF h1]
  have 1: "splitTitle (?X @ [middle_dot] @ ?Y)
     = \<lparr>engName = ascii ''Raid Boss'', cnName = [0x7A81, 0x88AD]\<rparr>"
    by (simp only: demo_parts)
  from title_cascade [THEN conjunct2, THEN conjunct1, rule_format, OF h2]
  have 2: "splitTitle ([] @ [left_bracket] @ ?X @ [middle_dot] @ ?Y @ [right_bracket] @ [])
     = \<lparr>engName = ascii ''Raid Boss'', cnName = [0x7A81, 0x88AD]\<rparr>"
    by (simp only: demo_parts)
  from title_cascade [THEN conjunct2, THEN conjunct2, THEN conjunct1, rule_format, OF h3]
  have 3: "splitTitle (ascii ''Raid Boss - Event - Mode'')
     = \<lparr>engName = ascii ''Raid Boss'', cnName = ascii ''Event - Mode''\<rparr>"
    by (simp only: demo_spaced)
  from title_cascade [THEN conjunct2, THEN conjunct2, THEN conjunct2, rule_format, OF h4]
  have 4: "splitTitle (ascii ''Loot2-Plus'') = \<lparr>engName = ascii ''Loot2'', cnName = ascii ''Plus''\<rparr>"
    by (simp only: demo_bare)
  from 1 2 3 4 show ?thesis by (simp only: simp_thms)
qed

text \<open>
  C6 as stated fails. A title \<open>X \<cdot> Y\<close> whose second part holds a line feed matches no
  rule and comes back whole as \<^verbatim>\<open>cnName\<close>; so does one whose second part is empty. A
  lone right bracket behind \<open>Y\<close>, or a lone left bracket before \<open>X\<close>, is dropped. With
  two middle dots the split is at the first. A name that contains \<^verbatim>\<open>" - "\<close> only up to
  trimming is not split, nor is a run followed by a hyphen without a remainder on the
  same line.
\<close>

theorem title_cascade_counterexample:
  "splitTitle (ascii ''A'' @ [middle_dot] @ ascii ''B'' @ [0xA] @ ascii ''C'')
     = \<lparr>engName = [], cnName = ascii ''A'' @ [middle_dot] @ ascii ''B'' @ [0xA] @ ascii ''C''\<rparr>
   \<and> engName (splitTitle (ascii ''A'' @ [middle_dot] @ ascii ''B'' @ [0xA] @ ascii ''C''))
       \<noteq> trim (ascii ''A'')
   \<and> splitTitle (ascii ''A '' @ [middle_dot] @ [])
     = \<lparr>engName = [], cnName = ascii ''A '' @ [middle_dot]\<rparr>
   \<and> splitTitle (ascii ''A '' @ [middle_dot] @ ascii '' B'' @ [right_bracket])
     = \<lparr>engName = ascii ''A'', cnName = ascii ''B''\<rparr>
   \<and> splitTitle ([left_bracket] @ ascii ''A '' @ [middle_dot] @ ascii '' B'')
     = \<lparr>engName = ascii ''A'', cnName = ascii ''B''\<rparr>
   \<and> splitTitle (ascii ''A'' @ [middle_dot] @ ascii ''B'' @ [middle_dot] @ ascii ''C'')
     = \<lparr>engName = ascii ''A'', cnName = ascii ''B'' @ [middle_dot] @ ascii ''C''\<rparr>
   \<and> splitTitle (ascii ''a - '') = \<lparr>engName = [], cnName = ascii ''a -''\<rparr>
   \<and> splitTitle (ascii ''abc-d'' @ [0xA] @ ascii ''ef'')
     = \<lparr>engName = [], cnName = ascii ''abc-d'' @ [0xA] @ ascii ''ef''\<rparr>"
  by code_simp


section \<open>The sanitizer\<close>












































end
